theory Spec2Isabelle
  imports Complex_Main
begin

section \<open>JavaScript values\<close>

text \<open>
  The program is one module, \<^verbatim>\<open>main.js\<close>: a websocket client that hands every position
  report of one vessel to a document store behind an authenticated REST API. The file
  holds two variants of the module; the first one (with the keepalive ping and the
  flipped coordinates) is the one embedded here.

  A JavaScript number is NaN, an infinity or a finite double. Every finite double is a
  rational, and \<^verbatim>\<open>===\<close> and \<^verbatim>\<open>>=\<close> on finite doubles are equality and order of these
  rationals (\<^verbatim>\<open>-0 === 0\<close> holds, so one zero is enough). No arithmetic is done on
  received numbers: they are only compared.
\<close>

datatype number = NaN | Finite rat | PosInfinity | NegInfinity

text \<open>
  A value as \<^verbatim>\<open>JSON.parse\<close> produces it, and \<^verbatim>\<open>undefined\<close> for what a property read
  yields when the property is not there. An object is the list of its own properties.
\<close>

datatype jsval =
    JUndefined
  | JNull
  | JBool bool
  | JNum number
  | JStr string
  | JArr "jsval list"
  | JObj "(string \<times> jsval) list"

text \<open>Truthiness, as \<^verbatim>\<open>if (v)\<close>, \<^verbatim>\<open>!v\<close> and \<^verbatim>\<open>a || b\<close> use it.\<close>

fun truthy :: "jsval \<Rightarrow> bool" where
  "truthy JUndefined = False"
| "truthy JNull = False"
| "truthy (JBool b) = b"
| "truthy (JNum n) = (n \<noteq> NaN \<and> n \<noteq> Finite 0)"
| "truthy (JStr s) = (s \<noteq> [])"
| "truthy (JArr xs) = True"
| "truthy (JObj kvs) = True"

text \<open>
  The property read \<^verbatim>\<open>v?.k\<close>. On \<^verbatim>\<open>null\<close> and \<^verbatim>\<open>undefined\<close> the optional chain gives
  \<^verbatim>\<open>undefined\<close>; a primitive or an array has none of the properties the program reads
  by name (\<^verbatim>\<open>Message\<close>, \<^verbatim>\<open>PositionReport\<close>, \<^verbatim>\<open>Latitude\<close>, \<^verbatim>\<open>docs\<close>, \<^verbatim>\<open>createdAt\<close>, ...).
  The program reads \<^verbatim>\<open>v.k\<close> without the chain only where \<^verbatim>\<open>v\<close> is known to be truthy.
\<close>

fun get :: "jsval \<Rightarrow> string \<Rightarrow> jsval" where
  "get (JObj kvs) k = (case map_of kvs k of Some v \<Rightarrow> v | None \<Rightarrow> JUndefined)"
| "get v k = JUndefined"

text \<open>\<^verbatim>\<open>a || b\<close>.\<close>

definition js_or :: "jsval \<Rightarrow> jsval \<Rightarrow> jsval" where
  "js_or a b = (if truthy a then a else b)"

text \<open>\<^verbatim>\<open>a === b\<close> on numbers: NaN equals nothing, itself included.\<close>

definition strict_eq :: "number \<Rightarrow> number \<Rightarrow> bool" where
  "strict_eq a b = (a \<noteq> NaN \<and> b \<noteq> NaN \<and> a = b)"

text \<open>\<^verbatim>\<open>a >= b\<close> on numbers: false as soon as one side is NaN.\<close>

fun number_ge :: "number \<Rightarrow> number \<Rightarrow> bool" where
  "number_ge NaN b = False"
| "number_ge a NaN = False"
| "number_ge PosInfinity b = True"
| "number_ge a NegInfinity = True"
| "number_ge NegInfinity b = False"
| "number_ge a PosInfinity = False"
| "number_ge (Finite x) (Finite y) = (y \<le> x)"

text \<open>
  What the platform does with text is not code of this module: reading a number from a
  string (\<^verbatim>\<open>Number("12.5")\<close>), printing one, reading a date (\<^verbatim>\<open>new Date("2024-...")\<close>)
  and printing one (\<^verbatim>\<open>toISOString\<close>), and the text that \<^verbatim>\<open>console.log(v)\<close> prints for a
  value (a string as it is, an object as \<^verbatim>\<open>util.inspect\<close> shows it). The model takes these
  five as parameters.
\<close>

record runtime =
  StringToNumber :: "string \<Rightarrow> number"
  NumberToString :: "number \<Rightarrow> string"
  DateParse :: "string \<Rightarrow> number"
  toISOString :: "int \<Rightarrow> string"
  inspect :: "jsval \<Rightarrow> string"

fun join :: "string list \<Rightarrow> string" where
  "join [] = []"
| "join [s] = s"
| "join (s # t # ss) = s @ '','' @ join (t # ss)"

text \<open>
  \<^verbatim>\<open>String(v)\<close>, as a template literal and the conversion of an object to a primitive use
  it. An array prints its elements separated by commas, \<^verbatim>\<open>null\<close> and \<^verbatim>\<open>undefined\<close>
  among them as nothing.
\<close>

fun ToString :: "runtime \<Rightarrow> jsval \<Rightarrow> string" where
  "ToString rt JUndefined = ''undefined''"
| "ToString rt JNull = ''null''"
| "ToString rt (JBool b) = (if b then ''true'' else ''false'')"
| "ToString rt (JNum n) = NumberToString rt n"
| "ToString rt (JStr s) = s"
| "ToString rt (JArr xs) =
     join (map (\<lambda>x. if x = JUndefined \<or> x = JNull then [] else ToString rt x) xs)"
| "ToString rt (JObj kvs) = ''[object Object]''"

text \<open>\<^verbatim>\<open>Number(v)\<close>.\<close>

fun Number :: "runtime \<Rightarrow> jsval \<Rightarrow> number" where
  "Number rt JUndefined = NaN"
| "Number rt JNull = Finite 0"
| "Number rt (JBool b) = (if b then Finite 1 else Finite 0)"
| "Number rt (JNum n) = n"
| "Number rt (JStr s) = StringToNumber rt s"
| "Number rt (JArr xs) = StringToNumber rt (ToString rt (JArr xs))"
| "Number rt (JObj kvs) = StringToNumber rt (ToString rt (JObj kvs))"

text \<open>
  \<^verbatim>\<open>new Date(v).getTime()\<close>: a string is parsed, anything else is converted to a number
  (an array or an object through its string); the time value is an integral number of
  milliseconds of magnitude at most 8.64e15, and NaN otherwise.
\<close>

definition TimeClip :: "number \<Rightarrow> number" where
  "TimeClip n =
     (case n of
        Finite x \<Rightarrow>
          (if \<bar>x\<bar> \<le> 8640000000000000
           then Finite (of_int (if 0 \<le> x then \<lfloor>x\<rfloor> else \<lceil>x\<rceil>)) else NaN)
      | _ \<Rightarrow> NaN)"

fun getTime :: "runtime \<Rightarrow> jsval \<Rightarrow> number" where
  "getTime rt (JStr s) = DateParse rt s"
| "getTime rt (JArr xs) = DateParse rt (ToString rt (JArr xs))"
| "getTime rt (JObj kvs) = DateParse rt (ToString rt (JObj kvs))"
| "getTime rt JUndefined = NaN"
| "getTime rt v = TimeClip (Number rt v)"

section \<open>Configuration and module state\<close>

text \<open>
  The environment variables the module reads when it is loaded. A variable that is not
  set is \<^verbatim>\<open>undefined\<close>; an empty one is the empty string, which is falsy too.
\<close>

record config =
  MMSI :: "string option"
  CMS_HOST_URL :: "string option"
  CMS_EMAIL :: "string option"
  CMS_PASSWORD :: "string option"
  AIS_STREAM_KEY :: "string option"

definition is_set :: "string option \<Rightarrow> bool" where
  "is_set v = (case v of None \<Rightarrow> False | Some s \<Rightarrow> s \<noteq> [])"

text \<open>
  \<^verbatim>\<open>new URL(path, CMS_HOST_URL).toString()\<close>, or \<^verbatim>\<open>null\<close> without a host. The host is
  taken to be an origin (\<^verbatim>\<open>https://cms.example.org\<close>), so that resolving an absolute path
  against it appends the path.
\<close>

definition cmsCollectionUrl :: "config \<Rightarrow> string option" where
  "cmsCollectionUrl cfg =
     (if is_set (CMS_HOST_URL cfg) then Some (the (CMS_HOST_URL cfg) @ ''/api/ais-logs'') else None)"

definition cmsLoginUrl :: "config \<Rightarrow> string option" where
  "cmsLoginUrl cfg =
     (if is_set (CMS_HOST_URL cfg) then Some (the (CMS_HOST_URL cfg) @ ''/api/users/login'') else None)"

definition mmsi :: "config \<Rightarrow> jsval" where
  "mmsi cfg = (case MMSI cfg of None \<Rightarrow> JUndefined | Some s \<Rightarrow> JStr s)"

text \<open>
  The timers the platform holds for the module: the one-shot reconnect timeout with its
  delay in milliseconds, and the two intervals.
\<close>

datatype timer = ReconnectTimeout nat | InactivityInterval | PingInterval

datatype ready_state = CONNECTING | OPEN | CLOSING | CLOSED

text \<open>
  What the program throws with \<^verbatim>\<open>new Error(message)\<close>, and the two kinds of error the
  platform rejects a promise with (a failed request or body read, unparseable JSON).
\<close>

datatype error = Error string | TypeError | SyntaxError

text \<open>
  The module's \<^verbatim>\<open>let\<close> variables, under their names, then what the platform holds on the
  module's behalf: the pending timers by handle, the number of handles, sockets and
  promises created so far, the subscriptions sent, the clock that \<^verbatim>\<open>Date.now()\<close> reads,
  the lines written to the console, and the errors of the promises that were rejected
  with no handler attached. A timer handle and a promise are objects, hence truthy:
  \<^verbatim>\<open>null\<close> is \<open>None\<close>.
\<close>

record state =
  socket :: "nat option"
  minutesWaited :: nat
  isSocketOpen :: bool
  reconnectTimer :: "nat option"
  reconnectAttempts :: nat
  inactivityTimer :: "nat option"
  missingCmsHostWarned :: bool
  missingCmsCredsWarned :: bool
  cmsAuthToken :: jsval
  pendingCmsLogin :: "nat option"
  pingTimer :: "nat option"
  timers :: "(nat \<times> timer) list"
  handles :: nat
  sockets :: nat
  promises :: nat
  subscriptions :: nat
  clock :: int
  console :: "string list"
  unhandledRejections :: "error list"

definition console_log :: "string \<Rightarrow> state \<Rightarrow> state" where
  "console_log line st = st\<lparr>console := console st @ [line]\<rparr>"

text \<open>\<^verbatim>\<open>setTimeout\<close> and \<^verbatim>\<open>setInterval\<close> return a fresh handle; \<^verbatim>\<open>clearInterval\<close> drops one.\<close>

definition setTimer :: "timer \<Rightarrow> state \<Rightarrow> nat \<times> state" where
  "setTimer t st =
     (handles st, st\<lparr>timers := timers st @ [(handles st, t)], handles := Suc (handles st)\<rparr>)"

definition clearInterval :: "nat \<Rightarrow> state \<Rightarrow> state" where
  "clearInterval h st = st\<lparr>timers := filter (\<lambda>(h', t). h' \<noteq> h) (timers st)\<rparr>"

section \<open>Connection lifecycle\<close>

definition startInactivityTimer :: "state \<Rightarrow> state" where
  "startInactivityTimer st =
     (let st1 = (case inactivityTimer st of Some h \<Rightarrow> clearInterval h st | None \<Rightarrow> st);
          (h, st2) = setTimer InactivityInterval st1
      in st2\<lparr>inactivityTimer := Some h\<rparr>)"

definition clearInactivityTimer :: "state \<Rightarrow> state" where
  "clearInactivityTimer st =
     (case inactivityTimer st of
        None \<Rightarrow> st
      | Some h \<Rightarrow> (clearInterval h st)\<lparr>inactivityTimer := None\<rparr>)"

text \<open>
  \<open>ready\<close> is \<^verbatim>\<open>socket.readyState\<close> of the socket the variable holds at this moment, which
  the platform decides.
\<close>

definition sendSubscription :: "config \<Rightarrow> ready_state \<Rightarrow> state \<Rightarrow> state" where
  "sendSubscription cfg ready st =
     (if \<not> is_set (AIS_STREAM_KEY cfg) then console_log ''Missing aisstream.io API key'' st
      else if socket st = None \<or> ready \<noteq> OPEN
        then console_log ''WebSocket not ready; unable to subscribe'' st
      else startInactivityTimer (st\<lparr>subscriptions := Suc (subscriptions st)\<rparr>))"

text \<open>\<^verbatim>\<open>Math.min(30_000, 1_000 * 2 ** reconnectAttempts)\<close>, on a counter that is a natural
  number. From 2 ** 1024 on the double is \<^verbatim>\<open>Infinity\<close> and the minimum is 30000 all the
  same.\<close>

definition reconnect_delay :: "nat \<Rightarrow> nat" where
  "reconnect_delay attempts = min 30000 (1000 * 2 ^ attempts)"

definition connect :: "state \<Rightarrow> state" where
  "connect st =
     (console_log ''Connecting to AIS stream...'' st)
       \<lparr>socket := Some (sockets st), sockets := Suc (sockets st)\<rparr>"

definition scheduleReconnect :: "state \<Rightarrow> state" where
  "scheduleReconnect st =
     (if reconnectTimer st \<noteq> None then st
      else
        (let delay = reconnect_delay (reconnectAttempts st);
             st1 = console_log ''AIS stream disconnected. Reconnecting...'' st;
             (h, st2) = setTimer (ReconnectTimeout delay) st1
         in st2\<lparr>reconnectTimer := Some h\<rparr>))"

text \<open>The callback that \<^verbatim>\<open>scheduleReconnect\<close> hands to \<^verbatim>\<open>setTimeout\<close>.\<close>

definition reconnect_callback :: "state \<Rightarrow> state" where
  "reconnect_callback st =
     connect (st\<lparr>reconnectTimer := None, reconnectAttempts := reconnectAttempts st + 1\<rparr>)"

text \<open>The callback of the inactivity interval.\<close>

definition inactivity_callback :: "state \<Rightarrow> state" where
  "inactivity_callback st =
     console_log ''hours since last message...'' (st\<lparr>minutesWaited := minutesWaited st + 60\<rparr>)"

definition handleOpen :: "config \<Rightarrow> ready_state \<Rightarrow> state \<Rightarrow> state" where
  "handleOpen cfg ready st =
     (let st1 = (console_log ''AIS stream websocket connected'' st)
                  \<lparr>isSocketOpen := True, minutesWaited := 0, reconnectAttempts := 0\<rparr>;
          (h, st2) = setTimer PingInterval st1
      in sendSubscription cfg ready (st2\<lparr>pingTimer := Some h\<rparr>))"

definition handleClose :: "state \<Rightarrow> state" where
  "handleClose st =
     (let st1 = clearInactivityTimer (st\<lparr>isSocketOpen := False\<rparr>);
          st2 = (case pingTimer st1 of Some h \<Rightarrow> clearInterval h st1 | None \<Rightarrow> st1);
          st3 = console_log ''AIS stream websocket closed'' (st2\<lparr>pingTimer := None\<rparr>)
      in scheduleReconnect st3)"

definition handleError :: "state \<Rightarrow> state" where
  "handleError st = scheduleReconnect (console_log ''AIS stream websocket error'' st)"

text \<open>
  The platform fires a pending timer: a timeout leaves the table before its callback
  runs, an interval stays. The ping callback changes nothing in the module.
\<close>

definition fire :: "nat \<Rightarrow> state \<Rightarrow> state" where
  "fire h st =
     (case map_of (timers st) h of
        None \<Rightarrow> st
      | Some (ReconnectTimeout d) \<Rightarrow> reconnect_callback (clearInterval h st)
      | Some InactivityInterval \<Rightarrow> inactivity_callback st
      | Some PingInterval \<Rightarrow> st)"

text \<open>The module as it is once loaded: every variable at its initialiser, then
  \<^verbatim>\<open>connect()\<close>.\<close>

definition loaded :: "int \<Rightarrow> state" where
  "loaded now =
     connect \<lparr>socket = None, minutesWaited = 0, isSocketOpen = False, reconnectTimer = None,
       reconnectAttempts = 0, inactivityTimer = None, missingCmsHostWarned = False,
       missingCmsCredsWarned = False, cmsAuthToken = JNull, pendingCmsLogin = None,
       pingTimer = None, timers = [], handles = 0, sockets = 0, promises = 0,
       subscriptions = 0, clock = now, console = [], unhandledRejections = []\<rparr>"

section \<open>Asynchronous functions\<close>

text \<open>A promise that has settled: fulfilled with a value, or rejected with an error.\<close>

datatype 'a settled = Fulfilled 'a | Rejected error

record response =
  status :: nat
  statusText :: string

definition ok :: "response \<Rightarrow> bool" where
  "ok r = (200 \<le> status r \<and> status r \<le> 299)"

text \<open>The arguments of a \<^verbatim>\<open>fetch\<close>; \<open>json_body\<close> is the value given to \<^verbatim>\<open>JSON.stringify\<close>
  for the body, \<^verbatim>\<open>undefined\<close> for a request without one.\<close>

record request =
  url :: string
  http_method :: string
  query :: "(string \<times> string) list"
  headers :: "(string \<times> string) list"
  json_body :: jsval

text \<open>
  An \<^verbatim>\<open>async\<close> function runs until its first \<^verbatim>\<open>await\<close>, then gives control back; it goes
  on, in a later turn of the event loop, when the awaited promise has settled, and it
  finds the module state as the turns in between have left it. A call is therefore a
  tree: it has returned or thrown (\<open>Return\<close>), or it is suspended, with the state it
  left behind and the function that resumes it from the settled value and the state
  then current. The program awaits a \<^verbatim>\<open>fetch\<close>, the text or the JSON of a response body,
  the shared login promise, and the promise of an async function that has already
  returned (\<open>Tick\<close>: the continuation still waits for a later microtask). \<open>Spawn p t rest\<close>
  says that the call has created the promise \<open>p\<close>, which the process \<open>t\<close> settles, and
  goes on, in the same turn, with \<open>rest\<close>.
\<close>

datatype ('a, 't) proc =
    Return "'a settled" state
  | Spawn nat 't "('a, 't) proc"
  | AwaitFetch request state "response settled \<Rightarrow> state \<Rightarrow> ('a, 't) proc"
  | AwaitText response state "string settled \<Rightarrow> state \<Rightarrow> ('a, 't) proc"
  | AwaitJson response state "jsval settled \<Rightarrow> state \<Rightarrow> ('a, 't) proc"
  | AwaitPromise nat state "jsval settled \<Rightarrow> state \<Rightarrow> ('a, 't) proc"
  | Tick state "state \<Rightarrow> ('a, 't) proc"

text \<open>The login attempt spawns nothing; every other call may spawn a login attempt.\<close>

type_synonym login = "(jsval, unit) proc"

type_synonym 'a task = "('a, login) proc"

text \<open>The module state at the end of the turn in which the call was made or resumed.\<close>

primrec state_of :: "('a, 't) proc \<Rightarrow> state" where
  "state_of (Return r s) = s"
| "state_of (Spawn p t rest) = state_of rest"
| "state_of (AwaitFetch rq s k) = s"
| "state_of (AwaitText rs s k) = s"
| "state_of (AwaitJson rs s k) = s"
| "state_of (AwaitPromise p s k) = s"
| "state_of (Tick s k) = s"

text \<open>Sequencing: what follows a call once it has returned or thrown.\<close>

primrec bind :: "('a, 't) proc \<Rightarrow> ('a settled \<Rightarrow> state \<Rightarrow> ('b, 't) proc) \<Rightarrow> ('b, 't) proc" where
  "bind (Return r s) f = f r s"
| "bind (Spawn p t rest) f = Spawn p t (bind rest f)"
| "bind (AwaitFetch rq s k) f = AwaitFetch rq s (\<lambda>a s'. bind (k a s') f)"
| "bind (AwaitText rs s k) f = AwaitText rs s (\<lambda>a s'. bind (k a s') f)"
| "bind (AwaitJson rs s k) f = AwaitJson rs s (\<lambda>a s'. bind (k a s') f)"
| "bind (AwaitPromise p s k) f = AwaitPromise p s (\<lambda>a s'. bind (k a s') f)"
| "bind (Tick s k) f = Tick s (\<lambda>s'. bind (k s') f)"

text \<open>\<^verbatim>\<open>await f(...)\<close> on an async function of the module: the caller resumes, with the
  result or the exception, one turn after the callee has finished.\<close>

definition await :: "('a, 't) proc \<Rightarrow> ('a settled \<Rightarrow> state \<Rightarrow> ('b, 't) proc) \<Rightarrow> ('b, 't) proc" where
  "await t f = bind t (\<lambda>r s. Tick s (\<lambda>s'. f r s'))"

text \<open>An exception that no \<^verbatim>\<open>try\<close> around the \<^verbatim>\<open>await\<close> catches ends the function.\<close>

definition or_throw :: "('a \<Rightarrow> state \<Rightarrow> ('b, 't) proc) \<Rightarrow> 'a settled \<Rightarrow> state \<Rightarrow> ('b, 't) proc" where
  "or_throw f r s = (case r of Rejected e \<Rightarrow> Return (Rejected e) s | Fulfilled v \<Rightarrow> f v s)"

section \<open>Session manager\<close>

definition warnMissingCmsHost :: "state \<Rightarrow> state" where
  "warnMissingCmsHost st =
     (if missingCmsHostWarned st then st
      else (console_log ''Missing CMS_HOST_URL; skipping Payload persistence'' st)
             \<lparr>missingCmsHostWarned := True\<rparr>)"

definition warnMissingCmsCreds :: "state \<Rightarrow> state" where
  "warnMissingCmsCreds st =
     (if missingCmsCredsWarned st then st
      else (console_log ''Missing CMS_EMAIL or CMS_PASSWORD; skipping Payload persistence'' st)
             \<lparr>missingCmsCredsWarned := True\<rparr>)"

definition env_value :: "string option \<Rightarrow> jsval" where
  "env_value v = (case v of None \<Rightarrow> JUndefined | Some s \<Rightarrow> JStr s)"

definition login_request :: "config \<Rightarrow> request" where
  "login_request cfg =
     \<lparr>url = the (cmsLoginUrl cfg), http_method = ''POST'', query = [],
      headers = [(''Content-Type'', ''application/json'')],
      json_body = JObj [(''email'', env_value (CMS_EMAIL cfg)),
                      (''password'', env_value (CMS_PASSWORD cfg))]\<rparr>"

definition status_line :: "runtime \<Rightarrow> response \<Rightarrow> string \<Rightarrow> string" where
  "status_line rt r body =
     NumberToString rt (Finite (of_nat (status r))) @ '' '' @ statusText r @ '' - '' @ body"

definition loginToCms :: "config \<Rightarrow> runtime \<Rightarrow> state \<Rightarrow> (jsval, 't) proc" where
  "loginToCms cfg rt st =
     (if cmsLoginUrl cfg = None then Return (Fulfilled JNull) (warnMissingCmsHost st)
      else if \<not> is_set (CMS_EMAIL cfg) \<or> \<not> is_set (CMS_PASSWORD cfg)
        then Return (Rejected (Error ''Cannot authenticate without CMS credentials''))
               (warnMissingCmsCreds st)
      else AwaitFetch (login_request cfg) st (or_throw (\<lambda>response s.
        if \<not> ok response
        then AwaitText response s (or_throw (\<lambda>body s.
               Return (Rejected (Error (''Payload login failed: '' @ status_line rt response body))) s))
        else AwaitJson response s (or_throw (\<lambda>payload s.
               let token = js_or (get payload ''token'') (get payload ''jwt'') in
               if \<not> truthy token
               then Return (Rejected (Error ''Payload login response missing token'')) s
               else Return (Fulfilled token)
                      (console_log ''Authenticated with Payload CMS REST API''
                         (s\<lparr>cmsAuthToken := token\<rparr>)))))))"

text \<open>
  The promise that \<^verbatim>\<open>ensureCmsSession\<close> stores in \<^verbatim>\<open>pendingCmsLogin\<close>: the anonymous async
  function that awaits \<^verbatim>\<open>loginToCms()\<close> and returns the token then cached, followed by
  the callback given to \<^verbatim>\<open>finally\<close>, which runs in a later microtask, before any caller
  that awaits the promise goes on.

  \<^verbatim>\<open>pendingCmsLogin.finally(...)\<close> returns a second promise, which settles as the first one
  does once the callback has run. The program drops it: when the login is rejected, this
  second promise is rejected with the same error and has no handler.
\<close>

definition login_attempt :: "config \<Rightarrow> runtime \<Rightarrow> state \<Rightarrow> (jsval, 't) proc" where
  "login_attempt cfg rt st =
     await (loginToCms cfg rt st) (or_throw (\<lambda>_ s. Return (Fulfilled (cmsAuthToken s)) s))"

definition login_finally :: "state \<Rightarrow> state" where
  "login_finally st = st\<lparr>pendingCmsLogin := None\<rparr>"

definition finally_promise :: "jsval settled \<Rightarrow> state \<Rightarrow> state" where
  "finally_promise r st =
     (case r of
        Fulfilled v \<Rightarrow> st
      | Rejected e \<Rightarrow> st\<lparr>unhandledRejections := unhandledRejections st @ [e]\<rparr>)"

definition pending_login :: "config \<Rightarrow> runtime \<Rightarrow> state \<Rightarrow> (jsval, 't) proc" where
  "pending_login cfg rt st =
     bind (login_attempt cfg rt st)
       (\<lambda>r s. Tick s (\<lambda>s'. Return r (finally_promise r (login_finally s'))))"

text \<open>A state-changing step on the node at the head of a process.\<close>

primrec map_state :: "(state \<Rightarrow> state) \<Rightarrow> ('a, 't) proc \<Rightarrow> ('a, 't) proc" where
  "map_state f (Return r s) = Return r (f s)"
| "map_state f (Spawn p t rest) = Spawn p t (map_state f rest)"
| "map_state f (AwaitFetch rq s k) = AwaitFetch rq (f s) k"
| "map_state f (AwaitText rs s k) = AwaitText rs (f s) k"
| "map_state f (AwaitJson rs s k) = AwaitJson rs (f s) k"
| "map_state f (AwaitPromise p s k) = AwaitPromise p (f s) k"
| "map_state f (Tick s k) = Tick (f s) k"

text \<open>
  \<^verbatim>\<open>ensureCmsSession\<close> has no \<^verbatim>\<open>await\<close> of its own. It returns the cached token, or
  \<^verbatim>\<open>null\<close> when the configuration is missing, or the promise in \<^verbatim>\<open>pendingCmsLogin\<close>, which
  it creates first when there is none: the login attempt runs up to its \<^verbatim>\<open>fetch\<close> inside
  this call, then the variable is assigned. A caller that is given the promise gets what
  the promise settles with.
\<close>

definition ensureCmsSession :: "config \<Rightarrow> runtime \<Rightarrow> state \<Rightarrow> jsval task" where
  "ensureCmsSession cfg rt st =
     (if truthy (cmsAuthToken st) then Return (Fulfilled (cmsAuthToken st)) st
      else if cmsLoginUrl cfg = None then Return (Fulfilled JNull) (warnMissingCmsHost st)
      else if \<not> is_set (CMS_EMAIL cfg) \<or> \<not> is_set (CMS_PASSWORD cfg)
        then Return (Fulfilled JNull) (warnMissingCmsCreds st)
      else
        (case pendingCmsLogin st of
           Some p \<Rightarrow> AwaitPromise p st Return
         | None \<Rightarrow>
             (let attempt = pending_login cfg rt st;
                  p = promises st;
                  st' = (state_of attempt)\<lparr>pendingCmsLogin := Some p, promises := Suc p\<rparr>
              in Spawn p attempt (AwaitPromise p st' Return))))"

text \<open>
  \<open>requestFactory\<close> builds the request from the module state at the moment it is called
  (both factories of the program read \<^verbatim>\<open>cmsAuthToken\<close> then); calling it is a \<^verbatim>\<open>fetch\<close>.
\<close>

definition performAuthorizedRequest ::
  "config \<Rightarrow> runtime \<Rightarrow> (state \<Rightarrow> request) \<Rightarrow> state \<Rightarrow> response task" where
  "performAuthorizedRequest cfg rt requestFactory st =
     (let with_session = (\<lambda>s.
        if \<not> truthy (cmsAuthToken s) then Return (Rejected (Error ''Missing Payload auth token'')) s
        else AwaitFetch (requestFactory s) s (or_throw (\<lambda>response s.
          if status response = 401 \<or> status response = 403
          then await (ensureCmsSession cfg rt (s\<lparr>cmsAuthToken := JNull\<rparr>)) (or_throw (\<lambda>_ s.
                 if \<not> truthy (cmsAuthToken s)
                 then Return (Rejected (Error
                   ''Missing Payload auth token after re-authentication; cannot complete request'')) s
                 else AwaitFetch (requestFactory s) s Return))
          else Return (Fulfilled response) s)))
      in if \<not> truthy (cmsAuthToken st)
         then await (ensureCmsSession cfg rt st) (or_throw (\<lambda>_ s. with_session s))
         else with_session st)"

section \<open>Deduplication and persistence\<close>

definition fetchRecentLogs :: "config \<Rightarrow> runtime \<Rightarrow> string \<Rightarrow> state \<Rightarrow> request" where
  "fetchRecentLogs cfg rt twelveHoursAgoIso st =
     \<lparr>url = the (cmsCollectionUrl cfg), http_method = ''GET'',
      query = [(''limit'', ''50''), (''sort'', ''-createdAt''),
               (''where[mmsi][equals]'', ToString rt (mmsi cfg)),
               (''where[createdAt][greater_than_or_equal]'', twelveHoursAgoIso)],
      headers = [(''Authorization'', ''Bearer '' @ ToString rt (cmsAuthToken st))],
      json_body = JUndefined\<rparr>"

definition docs_of :: "jsval \<Rightarrow> jsval list" where
  "docs_of payload = (case get payload ''docs'' of JArr ds \<Rightarrow> ds | _ \<Rightarrow> [])"

definition hasRecentLog :: "runtime \<Rightarrow> int \<Rightarrow> jsval list \<Rightarrow> bool" where
  "hasRecentLog rt sixHoursAgoThreshold docs =
     list_ex (\<lambda>doc.
       if \<not> truthy (get doc ''createdAt'') then False
       else number_ge (getTime rt (get doc ''createdAt'')) (Finite (of_int sixHoursAgoThreshold)))
     docs"

definition hasSameLocation :: "runtime \<Rightarrow> jsval \<Rightarrow> jsval list \<Rightarrow> bool" where
  "hasSameLocation rt pr docs =
     list_ex (\<lambda>doc.
       case get doc ''location'' of
         JArr docLocation \<Rightarrow>
           if length docLocation < 2 then False
           else strict_eq (Number rt (docLocation ! 0)) (Number rt (get pr ''Latitude''))
              \<and> strict_eq (Number rt (docLocation ! 1)) (Number rt (get pr ''Longitude''))
       | _ \<Rightarrow> False)
     docs"

definition shouldPersistPositionReport ::
  "config \<Rightarrow> runtime \<Rightarrow> jsval \<Rightarrow> state \<Rightarrow> bool task" where
  "shouldPersistPositionReport cfg rt pr st =
     (if cmsCollectionUrl cfg = None then Return (Fulfilled False) (warnMissingCmsHost st)
      else if \<not> truthy (cmsAuthToken st)
        then Return (Fulfilled True) (console_log ''Skipping duplicate check; missing auth token'' st)
      else
        (let now = clock st;
             twelveHoursAgoIso = toISOString rt (now - 12 * 60 * 60 * 1000);
             sixHoursAgoThreshold = now - 6 * 60 * 60 * 1000
         in await (performAuthorizedRequest cfg rt (fetchRecentLogs cfg rt twelveHoursAgoIso) st)
              (\<lambda>r s. case r of
                 Rejected e \<Rightarrow> Return (Fulfilled True) (console_log ''Failed to query recent AIS logs'' s)
               | Fulfilled response \<Rightarrow>
                   if \<not> ok response
                   then AwaitText response s (or_throw (\<lambda>body s.
                          Return (Fulfilled True) (console_log ''Payload REST query failed'' s)))
                   else AwaitJson response s (\<lambda>r s. case r of
                          Rejected e \<Rightarrow>
                            Return (Fulfilled True)
                              (console_log ''Failed to parse Payload REST query response'' s)
                        | Fulfilled payload \<Rightarrow>
                            (let docs = docs_of payload in
                             if hasRecentLog rt sixHoursAgoThreshold docs
                             then Return (Fulfilled False)
                                    (console_log ''Skipping AIS log: entry exists within last 6 hours'' s)
                             else if hasSameLocation rt pr docs
                             then Return (Fulfilled False)
                                    (console_log
                                       ''Skipping AIS log: identical location already stored within last 12 hours''
                                       s)
                             else Return (Fulfilled True) s)))))"

definition postAisLog :: "config \<Rightarrow> runtime \<Rightarrow> jsval \<Rightarrow> state \<Rightarrow> request" where
  "postAisLog cfg rt pr st =
     \<lparr>url = the (cmsCollectionUrl cfg), http_method = ''POST'', query = [],
      headers = [(''Content-Type'', ''application/json''),
                 (''Authorization'', ''Bearer '' @ ToString rt (cmsAuthToken st))],
      json_body = JObj [(''mmsi'', mmsi cfg),
                      (''location'', JArr [get pr ''Longitude'', get pr ''Latitude'']),
                      (''sog'', get pr ''Sog''),
                      (''navigationalStatus'', get pr ''NavigationalStatus''),
                      (''rateOfTurn'', get pr ''RateOfTurn''),
                      (''trueHeading'', get pr ''TrueHeading'')]\<rparr>"

definition persistPositionReport :: "config \<Rightarrow> runtime \<Rightarrow> jsval \<Rightarrow> state \<Rightarrow> unit task" where
  "persistPositionReport cfg rt pr st =
     (if cmsCollectionUrl cfg = None \<or> cmsLoginUrl cfg = None
        then Return (Fulfilled ()) (warnMissingCmsHost st)
      else if \<not> is_set (CMS_EMAIL cfg) \<or> \<not> is_set (CMS_PASSWORD cfg)
        then Return (Fulfilled ()) (warnMissingCmsCreds st)
      else await (ensureCmsSession cfg rt st) (\<lambda>r s. case r of
        Rejected e \<Rightarrow>
          Return (Fulfilled ()) (console_log ''Failed to authenticate with Payload REST API'' s)
      | Fulfilled _ \<Rightarrow>
          if \<not> truthy (cmsAuthToken s)
          then Return (Fulfilled ()) (console_log ''Skipping Payload persistence; missing auth token'' s)
          else await (shouldPersistPositionReport cfg rt pr s) (\<lambda>r s. case r of
            Rejected e \<Rightarrow>
              Return (Fulfilled ()) (console_log ''Failed to evaluate AIS log duplication rules'' s)
          | Fulfilled shouldPersist \<Rightarrow>
              if \<not> shouldPersist then Return (Fulfilled ()) s
              else await (performAuthorizedRequest cfg rt (postAisLog cfg rt pr) s) (\<lambda>r s. case r of
                Rejected e \<Rightarrow>
                  Return (Fulfilled ())
                    (console_log ''Failed to persist AIS log via Payload REST API'' s)
              | Fulfilled response \<Rightarrow>
                  if \<not> ok response
                  then AwaitText response s (\<lambda>_ s.
                         Return (Fulfilled ())
                           (console_log ''Failed to persist AIS log via Payload REST API'' s))
                  else Return (Fulfilled ()) s))))"

text \<open>
  \<open>data\<close> is what \<^verbatim>\<open>JSON.parse(event.data)\<close> gives: the parsed value, or \<open>None\<close> when it
  throws. The lines \<^verbatim>\<open>SyntaxError\<close>, \<^verbatim>\<open>Unexpected AIS report shape\<close> and \<^verbatim>\<open>Error\<close> stand for
  the exception that the handler prints in its \<^verbatim>\<open>catch\<close>.
\<close>

definition handleMessage :: "config \<Rightarrow> runtime \<Rightarrow> jsval option \<Rightarrow> state \<Rightarrow> unit task" where
  "handleMessage cfg rt data st =
     (case data of
        None \<Rightarrow> Return (Fulfilled ()) (console_log ''SyntaxError'' st)
      | Some aisMessage \<Rightarrow>
          (let st1 = console_log (inspect rt aisMessage)
                       (console_log ''AIS Message'' (st\<lparr>minutesWaited := 0\<rparr>));
               pr = get (get aisMessage ''Message'') ''PositionReport''
           in if truthy pr
              then await (persistPositionReport cfg rt pr st1) (\<lambda>r s. case r of
                     Rejected e \<Rightarrow> Return (Fulfilled ()) (console_log ''Error'' s)
                   | Fulfilled _ \<Rightarrow> Return (Fulfilled ()) s)
              else Return (Fulfilled ()) (console_log ''Unexpected AIS report shape'' st1)))"

section \<open>Running one call against its environment\<close>

text \<open>
  What the environment does at one suspension of a call: the other turns of the event
  loop change the module state in some way, and the awaited promise settles. One record
  holds the answer for each kind of promise; a suspension reads the one of its kind.
\<close>

record answers =
  interference :: "state \<Rightarrow> state"
  fetched :: "response settled"
  text_read :: "string settled"
  json_read :: "jsval settled"
  promised :: "jsval settled"

text \<open>
  What a call did: it created a promise, or it was suspended, leaving the module in the
  given state, and was resumed with the given settled value.
\<close>

datatype event =
    Spawned nat
  | Fetched request "response settled" state
  | ReadText response "string settled" state
  | ReadJson response "jsval settled" state
  | Awaited nat "jsval settled" state
  | Turn state

text \<open>
  \<open>run t env n\<close> runs the call to its end: its \<open>i\<close>-th suspension from here on is
  answered by \<open>env (n + i)\<close>. It gives the result, the final module state, and what the
  call did.
\<close>

primrec run :: "('a, 't) proc \<Rightarrow> (nat \<Rightarrow> answers) \<Rightarrow> nat \<Rightarrow> 'a settled \<times> state \<times> event list" where
  "run (Return r s) env n = (r, s, [])"
| "run (Spawn p t rest) env n =
     (case run rest env n of (r, s', tr) \<Rightarrow> (r, s', Spawned p # tr))"
| "run (AwaitFetch rq s k) env n =
     (case run (k (fetched (env n)) (interference (env n) s)) env (Suc n) of
        (r, s', tr) \<Rightarrow> (r, s', Fetched rq (fetched (env n)) s # tr))"
| "run (AwaitText rs s k) env n =
     (case run (k (text_read (env n)) (interference (env n) s)) env (Suc n) of
        (r, s', tr) \<Rightarrow> (r, s', ReadText rs (text_read (env n)) s # tr))"
| "run (AwaitJson rs s k) env n =
     (case run (k (json_read (env n)) (interference (env n) s)) env (Suc n) of
        (r, s', tr) \<Rightarrow> (r, s', ReadJson rs (json_read (env n)) s # tr))"
| "run (AwaitPromise p s k) env n =
     (case run (k (promised (env n)) (interference (env n) s)) env (Suc n) of
        (r, s', tr) \<Rightarrow> (r, s', Awaited p (promised (env n)) s # tr))"
| "run (Tick s k) env n =
     (case run (k (interference (env n) s)) env (Suc n) of
        (r, s', tr) \<Rightarrow> (r, s', Turn s # tr))"

definition result :: "'a settled \<times> state \<times> event list \<Rightarrow> 'a settled" where
  "result x = fst x"

definition final :: "'a settled \<times> state \<times> event list \<Rightarrow> state" where
  "final x = fst (snd x)"

definition trace :: "'a settled \<times> state \<times> event list \<Rightarrow> event list" where
  "trace x = snd (snd x)"

text \<open>The requests a call has issued, in order, each with the answer it got.\<close>

fun calls :: "event list \<Rightarrow> (request \<times> response settled) list" where
  "calls [] = []"
| "calls (Fetched rq a s # tr) = (rq, a) # calls tr"
| "calls (e # tr) = calls tr"

text \<open>The number of suspensions among the events.\<close>

fun suspensions :: "event list \<Rightarrow> nat" where
  "suspensions [] = 0"
| "suspensions (Spawned p # tr) = suspensions tr"
| "suspensions (e # tr) = Suc (suspensions tr)"

text \<open>The events \<open>pre\<close> put before those of a run.\<close>

definition after :: "event list \<Rightarrow> 'a settled \<times> state \<times> event list \<Rightarrow> 'a settled \<times> state \<times> event list" where
  "after pre x = (fst x, fst (snd x), pre @ snd (snd x))"

text \<open>The events after the first request, and the state a suspension left behind.\<close>

fun after_call :: "event list \<Rightarrow> event list" where
  "after_call [] = []"
| "after_call (Fetched rq a s # tr) = tr"
| "after_call (e # tr) = after_call tr"

fun left :: "event \<Rightarrow> state option" where
  "left (Spawned p) = None"
| "left (Fetched rq a s) = Some s"
| "left (ReadText rs a s) = Some s"
| "left (ReadJson rs a s) = Some s"
| "left (Awaited p a s) = Some s"
| "left (Turn s) = Some s"

section \<open>The event loop\<close>

text \<open>
  The promises created by a call in the turn it has just run, whether the call has
  returned, and the call without the record of the promises it created.
\<close>

primrec spawned :: "('a, 't) proc \<Rightarrow> (nat \<times> 't) list" where
  "spawned (Return r s) = []"
| "spawned (Spawn p t rest) = (p, t) # spawned rest"
| "spawned (AwaitFetch rq s k) = []"
| "spawned (AwaitText rs s k) = []"
| "spawned (AwaitJson rs s k) = []"
| "spawned (AwaitPromise p s k) = []"
| "spawned (Tick s k) = []"

primrec outcome :: "('a, 't) proc \<Rightarrow> 'a settled option" where
  "outcome (Return r s) = Some r"
| "outcome (Spawn p t rest) = outcome rest"
| "outcome (AwaitFetch rq s k) = None"
| "outcome (AwaitText rs s k) = None"
| "outcome (AwaitJson rs s k) = None"
| "outcome (AwaitPromise p s k) = None"
| "outcome (Tick s k) = None"

primrec unspawn :: "('a, 't) proc \<Rightarrow> ('a, 't) proc" where
  "unspawn (Return r s) = Return r s"
| "unspawn (Spawn p t rest) = unspawn rest"
| "unspawn (AwaitFetch rq s k) = AwaitFetch rq s k"
| "unspawn (AwaitText rs s k) = AwaitText rs s k"
| "unspawn (AwaitJson rs s k) = AwaitJson rs s k"
| "unspawn (AwaitPromise p s k) = AwaitPromise p s k"
| "unspawn (Tick s k) = Tick s k"

text \<open>
  What settles for a suspended call: a response, the text or the JSON of a body, or
  nothing to hand over (the awaited promise of the module has settled; the value of a
  login promise is looked up).
\<close>

datatype answer =
    Response "response settled"
  | Text "string settled"
  | Json "jsval settled"
  | Settled

text \<open>
  A suspended call goes on in the module state \<open>g\<close> of the moment, if what has settled
  is what it awaits; the call that awaits a login promise goes on once the promise has
  a value in \<open>vs\<close>.
\<close>

fun resume ::
  "('a, 't) proc \<Rightarrow> answer \<Rightarrow> state \<Rightarrow> (nat \<Rightarrow> jsval settled option) \<Rightarrow> ('a, 't) proc option" where
  "resume (AwaitFetch rq s k) (Response a) g vs = Some (k a g)"
| "resume (AwaitText rs s k) (Text a) g vs = Some (k a g)"
| "resume (AwaitJson rs s k) (Json a) g vs = Some (k a g)"
| "resume (AwaitPromise p s k) Settled g vs = (case vs p of None \<Rightarrow> None | Some a \<Rightarrow> Some (k a g))"
| "resume (Tick s k) Settled g vs = Some (k g)"
| "resume t a g vs = None"

text \<open>
  The process: the module state, the calls of \<^verbatim>\<open>handleMessage\<close> that have not returned,
  the login promises that have not settled, each with the attempt that settles it, and
  the values of those that have.
\<close>

record world =
  glob :: state
  handlers :: "unit task list"
  logins :: "(nat \<times> login) list"
  settlements :: "(nat \<times> jsval settled) list"

text \<open>
  What can happen in one turn of the event loop: the socket opens, closes or fails, a
  timer fires, a message arrives, the clock is read differently from now on, or a
  suspended call of \<^verbatim>\<open>handleMessage\<close> or a login attempt goes on.
\<close>

datatype action =
    Opens ready_state
  | Closes
  | Errors
  | Fires nat
  | Arrives "jsval option"
  | Passes int
  | HandlerGoesOn nat answer
  | LoginGoesOn nat answer

definition remove_nth :: "nat \<Rightarrow> 'a list \<Rightarrow> 'a list" where
  "remove_nth i xs = take i xs @ drop (Suc i) xs"

text \<open>The turn has left a call of \<^verbatim>\<open>handleMessage\<close> as \<open>t\<close>, in place \<open>i\<close> of the calls.\<close>

definition handler_turn :: "nat \<Rightarrow> unit task \<Rightarrow> world \<Rightarrow> world" where
  "handler_turn i t w =
     w\<lparr>glob := state_of t,
       logins := logins w @ spawned t,
       handlers := (if outcome t = None then (handlers w)[i := unspawn t]
                    else remove_nth i (handlers w))\<rparr>"

text \<open>The turn has left the login attempt of promise \<open>p\<close> as \<open>t\<close>: once it has returned,
  the promise has its value.\<close>

definition login_turn :: "nat \<Rightarrow> nat \<Rightarrow> login \<Rightarrow> world \<Rightarrow> world" where
  "login_turn j p t w =
     (case outcome t of
        None \<Rightarrow> w\<lparr>glob := state_of t, logins := (logins w)[j := (p, unspawn t)]\<rparr>
      | Some r \<Rightarrow> w\<lparr>glob := state_of t, logins := remove_nth j (logins w),
                     settlements := settlements w @ [(p, r)]\<rparr>)"

fun step :: "config \<Rightarrow> runtime \<Rightarrow> action \<Rightarrow> world \<Rightarrow> world" where
  "step cfg rt (Opens ready) w = w\<lparr>glob := handleOpen cfg ready (glob w)\<rparr>"
| "step cfg rt Closes w = w\<lparr>glob := handleClose (glob w)\<rparr>"
| "step cfg rt Errors w = w\<lparr>glob := handleError (glob w)\<rparr>"
| "step cfg rt (Fires h) w = w\<lparr>glob := fire h (glob w)\<rparr>"
| "step cfg rt (Passes now) w = w\<lparr>glob := (glob w)\<lparr>clock := now\<rparr>\<rparr>"
| "step cfg rt (Arrives data) w =
     (let t = handleMessage cfg rt data (glob w)
      in handler_turn (length (handlers w)) t (w\<lparr>handlers := handlers w @ [t]\<rparr>))"
| "step cfg rt (HandlerGoesOn i a) w =
     (if i < length (handlers w)
      then (case resume (handlers w ! i) a (glob w) (map_of (settlements w)) of
              None \<Rightarrow> w
            | Some t \<Rightarrow> handler_turn i t w)
      else w)"
| "step cfg rt (LoginGoesOn j a) w =
     (if j < length (logins w)
      then (case resume (snd (logins w ! j)) a (glob w) (map_of (settlements w)) of
              None \<Rightarrow> w
            | Some t \<Rightarrow> login_turn j (fst (logins w ! j)) t w)
      else w)"

definition started :: "int \<Rightarrow> world" where
  "started now = \<lparr>glob = loaded now, handlers = [], logins = [], settlements = []\<rparr>"

inductive reachable :: "config \<Rightarrow> runtime \<Rightarrow> world \<Rightarrow> bool" for cfg rt where
  start: "reachable cfg rt (started now)"
| turn: "reachable cfg rt w \<Longrightarrow> reachable cfg rt (step cfg rt a w)"

text \<open>
  The module installs no handler for \<^verbatim>\<open>unhandledRejection\<close> or \<^verbatim>\<open>uncaughtException\<close>. Node.js
  (from version 15 on, by default) then ends the process with exit code 1 when a promise
  has been rejected with no handler attached, as soon as the microtasks that are due have
  run. A call that waits for a microtask (the value of a settled promise of the module,
  the return of an async function) therefore still goes on; no socket event, timer,
  message or answer of the network reaches the module any more.
\<close>

fun microtask :: "action \<Rightarrow> bool" where
  "microtask (HandlerGoesOn i Settled) = True"
| "microtask (LoginGoesOn j Settled) = True"
| "microtask a = False"

definition node_step :: "config \<Rightarrow> runtime \<Rightarrow> action \<Rightarrow> world \<Rightarrow> world" where
  "node_step cfg rt a w =
     (if unhandledRejections (glob w) = [] \<or> microtask a then step cfg rt a w else w)"

text \<open>The process after a sequence of turns, without and with the end of the process.\<close>

definition steps :: "config \<Rightarrow> runtime \<Rightarrow> action list \<Rightarrow> world \<Rightarrow> world" where
  "steps cfg rt as w = foldl (\<lambda>w a. step cfg rt a w) w as"

definition node_run :: "config \<Rightarrow> runtime \<Rightarrow> action list \<Rightarrow> world \<Rightarrow> world" where
  "node_run cfg rt as w = foldl (\<lambda>w a. node_step cfg rt a w) w as"

text \<open>
  A property of every turn of a call after its first: \<open>R\<close> relates the module state in
  which the call goes on to the promises it creates in that turn, to whether it returns in
  it, and to the module state it leaves behind.
\<close>

definition turn_of :: "('a, 't) proc \<Rightarrow> (nat \<times> 't) list \<times> bool \<times> state" where
  "turn_of t = (spawned t, outcome t \<noteq> None, state_of t)"

primrec maintains :: "(state \<Rightarrow> (nat \<times> 't) list \<times> bool \<times> state \<Rightarrow> bool) \<Rightarrow> ('a, 't) proc \<Rightarrow> bool" where
  "maintains R (Return r s) = True"
| "maintains R (Spawn p t rest) = maintains R rest"
| "maintains R (AwaitFetch rq s k) = (\<forall>a g. R g (turn_of (k a g)) \<and> maintains R (k a g))"
| "maintains R (AwaitText rs s k) = (\<forall>a g. R g (turn_of (k a g)) \<and> maintains R (k a g))"
| "maintains R (AwaitJson rs s k) = (\<forall>a g. R g (turn_of (k a g)) \<and> maintains R (k a g))"
| "maintains R (AwaitPromise p s k) = (\<forall>a g. R g (turn_of (k a g)) \<and> maintains R (k a g))"
| "maintains R (Tick s k) = (\<forall>g. R g (turn_of (k g)) \<and> maintains R (k g))"

text \<open>The same of a function of the module, its first turn included.\<close>

definition keeps :: "(state \<Rightarrow> (nat \<times> 't) list \<times> bool \<times> state \<Rightarrow> bool) \<Rightarrow> (state \<Rightarrow> ('a, 't) proc) \<Rightarrow> bool" where
  "keeps R f = (\<forall>g. R g (turn_of (f g)) \<and> maintains R (f g))"

section \<open>Definitions for the statements\<close>

text \<open>
  The two parts of \<^verbatim>\<open>performAuthorizedRequest\<close> under a name: the retry after the
  session has been ensured again, and the function from its second \<^verbatim>\<open>if\<close> on.
\<close>

definition reauth_error :: error where
  "reauth_error =
     Error ''Missing Payload auth token after re-authentication; cannot complete request''"

definition retry :: "(state \<Rightarrow> request) \<Rightarrow> state \<Rightarrow> response task" where
  "retry requestFactory s =
     (if \<not> truthy (cmsAuthToken s) then Return (Rejected reauth_error) s
      else AwaitFetch (requestFactory s) s Return)"

definition with_session :: "config \<Rightarrow> runtime \<Rightarrow> (state \<Rightarrow> request) \<Rightarrow> state \<Rightarrow> response task" where
  "with_session cfg rt requestFactory s =
     (if \<not> truthy (cmsAuthToken s) then Return (Rejected (Error ''Missing Payload auth token'')) s
      else AwaitFetch (requestFactory s) s (or_throw (\<lambda>response s.
        if status response = 401 \<or> status response = 403
        then await (ensureCmsSession cfg rt (s\<lparr>cmsAuthToken := JNull\<rparr>))
               (or_throw (\<lambda>_ s. retry requestFactory s))
        else Return (Fulfilled response) s)))"

text \<open>
  The run of \<^verbatim>\<open>performAuthorizedRequest\<close> from its second \<^verbatim>\<open>if\<close> on, written out in terms
  of the run of \<^verbatim>\<open>ensureCmsSession\<close>: without a token it throws; otherwise it calls the
  factory, and a failure or a response other than 401 and 403 is the result; on 401 or
  403 the token is set to \<^verbatim>\<open>null\<close> and \<^verbatim>\<open>ensureCmsSession\<close> runs; what it throws is thrown
  on; when it returns, the function throws the explicit error if no token is cached one
  turn later, and otherwise calls the factory a second time and gives that answer,
  whatever it is.
\<close>

definition session_run ::
  "config \<Rightarrow> runtime \<Rightarrow> (state \<Rightarrow> request) \<Rightarrow> state \<Rightarrow> (nat \<Rightarrow> answers) \<Rightarrow> nat
     \<Rightarrow> response settled \<times> state \<times> event list" where
  "session_run cfg rt requestFactory s env n =
     (if \<not> truthy (cmsAuthToken s) then (Rejected (Error ''Missing Payload auth token''), s, [])
      else
        (let s1 = interference (env n) s in
         after [Fetched (requestFactory s) (fetched (env n)) s]
           (case fetched (env n) of
              Rejected e \<Rightarrow> (Rejected e, s1, [])
            | Fulfilled response \<Rightarrow>
                if status response = 401 \<or> status response = 403
                then
                  (let E = run (ensureCmsSession cfg rt (s1\<lparr>cmsAuthToken := JNull\<rparr>)) env (Suc n);
                       m = Suc n + suspensions (trace E);
                       g = interference (env m) (final E)
                   in after (trace E @ [Turn (final E)])
                        (case result E of
                           Rejected e \<Rightarrow> (Rejected e, g, [])
                         | Fulfilled v \<Rightarrow>
                             if \<not> truthy (cmsAuthToken g)
                             then (Rejected (Error
                                     ''Missing Payload auth token after re-authentication; cannot complete request''),
                                   g, [])
                             else (fetched (env (Suc m)), interference (env (Suc m)) g,
                                   [Fetched (requestFactory g) (fetched (env (Suc m))) g])))
                else (Fulfilled response, s1, []))))"

text \<open>What a run of \<^verbatim>\<open>performAuthorizedRequest\<close> is shown to satisfy.\<close>

definition request_summary :: "(state \<Rightarrow> request) \<Rightarrow> response settled \<times> state \<times> event list \<Rightarrow> bool" where
  "request_summary requestFactory R =
     (let cs = calls (trace R) in
      length cs \<le> 2
      \<and> (\<forall>rq a s. Fetched rq a s \<in> set (trace R) \<longrightarrow> truthy (cmsAuthToken s) \<and> rq = requestFactory s)
      \<and> (cs = [] \<longrightarrow> (\<exists>e. result R = Rejected e))
      \<and> (\<forall>rq e. cs = [(rq, Rejected e)] \<longrightarrow> result R = Rejected e)
      \<and> (\<forall>rq response. cs = [(rq, Fulfilled response)] \<and> status response \<noteq> 401 \<and> status response \<noteq> 403
            \<longrightarrow> result R = Fulfilled response)
      \<and> (\<forall>rq response. cs = [(rq, Fulfilled response)] \<and> (status response = 401 \<or> status response = 403)
            \<longrightarrow> (result R = Rejected reauth_error \<and> \<not> truthy (cmsAuthToken (final R)))
                \<or> (\<exists>p e s. Awaited p (Rejected e) s \<in> set (after_call (trace R)) \<and> result R = Rejected e))
      \<and> (\<forall>rq a rq' a'. cs = [(rq, a), (rq', a')]
            \<longrightarrow> (\<exists>response. a = Fulfilled response \<and> (status response = 401 \<or> status response = 403))
                \<and> result R = a'
                \<and> (\<exists>e\<in>set (after_call (trace R)). \<exists>s. left e = Some s \<and> cmsAuthToken s = JNull)))"

text \<open>
  A configuration, a platform and a module state for the examples: everything is
  configured, the platform reads one date and no number from text, and the module has a
  token cached. In the environment \<open>quiet\<close> no other turn touches the module state and
  every promise is rejected; \<open>responded code\<close> answers a request with that status.
\<close>

definition cfg0 :: config where
  "cfg0 = \<lparr>MMSI = Some ''308015000'', CMS_HOST_URL = Some ''https://cms.example.org'',
           CMS_EMAIL = Some ''ais@example.org'', CMS_PASSWORD = Some ''secret'',
           AIS_STREAM_KEY = Some ''key''\<rparr>"

definition rt0 :: runtime where
  "rt0 = \<lparr>StringToNumber = (\<lambda>s. NaN), NumberToString = (\<lambda>n. ''n''),
          DateParse = (\<lambda>s. if s = ''1970-01-02T00:00:00.000Z'' then Finite 86400000 else NaN),
          toISOString = (\<lambda>t. ''iso''),
          inspect = (\<lambda>v. case v of JStr s \<Rightarrow> s | _ \<Rightarrow> ''[value]'')\<rparr>"

definition authed :: "int \<Rightarrow> state" where
  "authed now = (loaded now)\<lparr>cmsAuthToken := JStr ''token''\<rparr>"

definition quiet :: answers where
  "quiet = \<lparr>interference = (\<lambda>s. s), fetched = Rejected TypeError, text_read = Rejected TypeError,
            json_read = Rejected SyntaxError, promised = Rejected TypeError\<rparr>"

definition responded :: "nat \<Rightarrow> answers" where
  "responded code = quiet\<lparr>fetched := Fulfilled \<lparr>status = code, statusText = []\<rparr>\<rparr>"

text \<open>The environment that gives the listed answers, in order, and \<open>quiet\<close> ever after.\<close>

definition script :: "answers list \<Rightarrow> nat \<Rightarrow> answers" where
  "script xs n = (if n < length xs then xs ! n else quiet)"

text \<open>The answer of a login promise that another turn has settled with a fresh token.\<close>

definition logged_in :: answers where
  "logged_in = quiet\<lparr>interference := (\<lambda>s. s\<lparr>cmsAuthToken := JStr ''fresh''\<rparr>),
                     promised := Fulfilled (JStr ''fresh'')\<rparr>"

text \<open>
  The answer of \<^verbatim>\<open>shouldPersistPositionReport\<close> once the query has returned a body that
  parses, and the run of the query itself: the request for the entries of the last twelve
  hours through \<^verbatim>\<open>performAuthorizedRequest\<close>.
\<close>

definition decision :: "runtime \<Rightarrow> jsval \<Rightarrow> int \<Rightarrow> jsval \<Rightarrow> bool" where
  "decision rt pr now payload =
     (\<not> hasRecentLog rt (now - 6 * 60 * 60 * 1000) (docs_of payload)
      \<and> \<not> hasSameLocation rt pr (docs_of payload))"

definition query_run ::
  "config \<Rightarrow> runtime \<Rightarrow> state \<Rightarrow> (nat \<Rightarrow> answers) \<Rightarrow> nat \<Rightarrow> response settled \<times> state \<times> event list" where
  "query_run cfg rt st env n =
     run (performAuthorizedRequest cfg rt
            (fetchRecentLogs cfg rt (toISOString rt (clock st - 12 * 60 * 60 * 1000))) st) env n"

text \<open>The events at which a body is read, and the calls that never read one.\<close>

fun body_read :: "event \<Rightarrow> bool" where
  "body_read (ReadText rs a s) = True"
| "body_read (ReadJson rs a s) = True"
| "body_read e = False"

primrec reads_no_body :: "('a, 't) proc \<Rightarrow> bool" where
  "reads_no_body (Return r s) = True"
| "reads_no_body (Spawn p t rest) = reads_no_body rest"
| "reads_no_body (AwaitFetch rq s k) = (\<forall>a g. reads_no_body (k a g))"
| "reads_no_body (AwaitText rs s k) = False"
| "reads_no_body (AwaitJson rs s k) = False"
| "reads_no_body (AwaitPromise p s k) = (\<forall>a g. reads_no_body (k a g))"
| "reads_no_body (Tick s k) = (\<forall>g. reads_no_body (k g))"

text \<open>The module state in which the first request of a run was issued.\<close>

fun first_fetch :: "event list \<Rightarrow> state option" where
  "first_fetch [] = None"
| "first_fetch (Fetched rq a s # tr) = Some s"
| "first_fetch (e # tr) = first_fetch tr"

text \<open>What the connection lifecycle owns of the module state.\<close>

definition connection ::
  "state \<Rightarrow> (nat \<times> timer) list \<times> nat \<times> nat option \<times> nat \<times> nat option \<times> nat option" where
  "connection st =
     (timers st, handles st, reconnectTimer st, reconnectAttempts st, inactivityTimer st,
      pingTimer st)"

text \<open>A turn of the persistence path or of a login attempt leaves the connection alone.\<close>

definition quiet_turn :: "state \<Rightarrow> state \<Rightarrow> bool" where
  "quiet_turn g s = (connection s = connection g)"

text \<open>
  A turn of a login attempt creates no promise and leaves \<^verbatim>\<open>pendingCmsLogin\<close> as it is,
  except the turn in which it ends, which sets it to \<^verbatim>\<open>null\<close>.
\<close>

definition login_turns :: "state \<Rightarrow> (nat \<times> unit) list \<times> bool \<times> state \<Rightarrow> bool" where
  "login_turns g x =
     (case x of (sp, fin, s) \<Rightarrow>
        quiet_turn g s \<and> promises s = promises g
        \<and> pendingCmsLogin s = (if fin then None else pendingCmsLogin g))"

text \<open>
  A turn of a call of \<^verbatim>\<open>handleMessage\<close> leaves \<^verbatim>\<open>pendingCmsLogin\<close> as it is and creates no
  promise, or it finds the variable \<^verbatim>\<open>null\<close>, creates one login promise, the next one
  of the platform's count, and leaves it in the variable.
\<close>

definition handler_turns :: "state \<Rightarrow> (nat \<times> login) list \<times> bool \<times> state \<Rightarrow> bool" where
  "handler_turns g x =
     (case x of (sp, fin, s) \<Rightarrow>
        quiet_turn g s
        \<and> (sp = [] \<and> pendingCmsLogin s = pendingCmsLogin g \<and> promises s = promises g
           \<or> pendingCmsLogin g = None
             \<and> (\<exists>t. sp = [(promises g, t)] \<and> pendingCmsLogin s = Some (promises g)
                     \<and> promises s = Suc (promises g) \<and> outcome t = None
                     \<and> maintains login_turns t)))"

definition fine :: "('a, login) proc \<Rightarrow> state \<Rightarrow> bool" where
  "fine t g = (handler_turns g (turn_of t) \<and> maintains handler_turns t)"

definition same :: "state \<Rightarrow> state \<Rightarrow> bool" where
  "same g s =
     (quiet_turn g s \<and> pendingCmsLogin s = pendingCmsLogin g \<and> promises s = promises g)"

text \<open>The pending reconnect timeouts among the timers of the platform.\<close>

fun is_reconnect :: "nat \<times> timer \<Rightarrow> bool" where
  "is_reconnect (h, ReconnectTimeout d) = True"
| "is_reconnect (h, t) = False"

definition reconnects :: "state \<Rightarrow> (nat \<times> timer) list" where
  "reconnects st = filter is_reconnect (timers st)"

text \<open>
  The timers and the variables that hold their handles agree: handles are fresh and
  distinct, \<^verbatim>\<open>reconnectTimer\<close> holds the one pending reconnect timeout or there is none,
  and the two interval variables hold intervals of their kind.
\<close>

definition timers_ok :: "state \<Rightarrow> bool" where
  "timers_ok st =
     ((\<forall>(h, t) \<in> set (timers st). h < handles st)
      \<and> distinct (map fst (timers st))
      \<and> (reconnectTimer st = None \<longrightarrow> reconnects st = [])
      \<and> (\<forall>h. reconnectTimer st = Some h \<longrightarrow> (\<exists>d. reconnects st = [(h, ReconnectTimeout d)]))
      \<and> (\<forall>h. inactivityTimer st = Some h \<longrightarrow> (h, InactivityInterval) \<in> set (timers st))
      \<and> (\<forall>h. pingTimer st = Some h \<longrightarrow> (h, PingInterval) \<in> set (timers st)))"

text \<open>
  What holds of the process after every turn. The promises that have a value and those
  of the pending attempts are among the promises created so far, and a pending one has
  no value yet.
\<close>

definition invariant :: "world \<Rightarrow> bool" where
  "invariant w =
     (timers_ok (glob w)
      \<and> (pendingCmsLogin (glob w) = None \<longrightarrow> logins w = [])
      \<and> (\<forall>p. pendingCmsLogin (glob w) = Some p \<longrightarrow> (\<exists>t. logins w = [(p, t)]))
      \<and> (\<forall>h \<in> set (handlers w). maintains handler_turns h)
      \<and> (\<forall>(p, t) \<in> set (logins w). maintains login_turns t \<and> outcome t = None)
      \<and> (\<forall>(p, t) \<in> set (logins w). p < promises (glob w) \<and> map_of (settlements w) p = None)
      \<and> (\<forall>(p, r) \<in> set (settlements w). p < promises (glob w)))"

text \<open>
  The run of \<^verbatim>\<open>persistPositionReport\<close> from the duplicate check on, and from the write
  on, in terms of the runs of the calls it awaits.
\<close>

definition write_run ::
  "config \<Rightarrow> runtime \<Rightarrow> jsval \<Rightarrow> state \<Rightarrow> (nat \<Rightarrow> answers) \<Rightarrow> nat \<Rightarrow> unit settled \<times> state \<times> event list" where
  "write_run cfg rt pr g env m =
     (let W = run (performAuthorizedRequest cfg rt (postAisLog cfg rt pr) g) env m;
          m3 = m + suspensions (trace W);
          g3 = interference (env m3) (final W)
      in after (trace W @ [Turn (final W)])
           (case result W of
              Rejected e \<Rightarrow>
                (Fulfilled (), console_log ''Failed to persist AIS log via Payload REST API'' g3, [])
            | Fulfilled response \<Rightarrow>
                if \<not> ok response
                then (Fulfilled (),
                      console_log ''Failed to persist AIS log via Payload REST API''
                        (interference (env (Suc m3)) g3),
                      [ReadText response (text_read (env (Suc m3))) g3])
                else (Fulfilled (), g3, [])))"

definition checked_run ::
  "config \<Rightarrow> runtime \<Rightarrow> jsval \<Rightarrow> state \<Rightarrow> (nat \<Rightarrow> answers) \<Rightarrow> nat \<Rightarrow> unit settled \<times> state \<times> event list" where
  "checked_run cfg rt pr g env m =
     (let S = run (shouldPersistPositionReport cfg rt pr g) env m;
          m2 = m + suspensions (trace S);
          g2 = interference (env m2) (final S)
      in after (trace S @ [Turn (final S)])
           (case result S of
              Rejected e \<Rightarrow>
                (Fulfilled (), console_log ''Failed to evaluate AIS log duplication rules'' g2, [])
            | Fulfilled shouldPersist \<Rightarrow>
                if \<not> shouldPersist then (Fulfilled (), g2, [])
                else write_run cfg rt pr g2 env (Suc m2)))"

text \<open>A position report, and the message of the stream that carries it.\<close>

definition report :: jsval where
  "report = JObj [(''Latitude'', JNum (Finite 10)), (''Longitude'', JNum (Finite 20))]"

definition message :: jsval where
  "message = JObj [(''Message'', JObj [(''PositionReport'', report)])]"

text \<open>
  What \<^verbatim>\<open>loginToCms\<close> returns or throws, from the answer to its request and from what the
  body of the response reads as (its text when the response is not ok, its JSON when it
  is).
\<close>

definition login_result :: "runtime \<Rightarrow> response settled \<Rightarrow> string settled \<Rightarrow> jsval settled \<Rightarrow> jsval settled" where
  "login_result rt answer body payload =
     (case answer of
        Rejected e \<Rightarrow> Rejected e
      | Fulfilled response \<Rightarrow>
          if \<not> ok response
          then (case body of
                  Rejected e \<Rightarrow> Rejected e
                | Fulfilled b \<Rightarrow> Rejected (Error (''Payload login failed: '' @ status_line rt response b)))
          else (case payload of
                  Rejected e \<Rightarrow> Rejected e
                | Fulfilled v \<Rightarrow>
                    if \<not> truthy (js_or (get v ''token'') (get v ''jwt''))
                    then Rejected (Error ''Payload login response missing token'')
                    else Fulfilled (js_or (get v ''token'') (get v ''jwt''))))"

text \<open>What a suspended call waits for.\<close>

datatype wait = ForFetch request | ForText | ForJson | ForPromise nat | ForTick | Finished

primrec waiting :: "('a, 't) proc \<Rightarrow> wait" where
  "waiting (Return r s) = Finished"
| "waiting (Spawn p t rest) = waiting rest"
| "waiting (AwaitFetch rq s k) = ForFetch rq"
| "waiting (AwaitText rs s k) = ForText"
| "waiting (AwaitJson rs s k) = ForJson"
| "waiting (AwaitPromise p s k) = ForPromise p"
| "waiting (Tick s k) = ForTick"

text \<open>
  Processes for the examples. Two position reports arrive one after the other, before
  anything else happens; \<open>login_pending\<close> is the module state once the first call of
  \<^verbatim>\<open>ensureCmsSession\<close> has stored its promise, and \<open>renewed\<close> the same with the token that
  the environment \<open>logged_in\<close> puts in place. Then the login request is answered with
  status 200 and a body that holds a token, and the login attempt goes on up to its last
  turn (\<open>login_answered\<close>); it runs to its end, and the two calls of \<^verbatim>\<open>handleMessage\<close> go on,
  each for the two microtasks it waits for (\<open>both_served\<close>).
\<close>

definition two_messages :: world where
  "two_messages =
     step cfg0 rt0 (Arrives (Some message)) (step cfg0 rt0 (Arrives (Some message)) (started 0))"

definition login_pending :: state where
  "login_pending = (loaded 0)\<lparr>pendingCmsLogin := Some 0, promises := Suc 0\<rparr>"

definition renewed :: state where
  "renewed = login_pending\<lparr>cmsAuthToken := JStr ''fresh''\<rparr>"

definition login_answered :: world where
  "login_answered =
     steps cfg0 rt0
       [LoginGoesOn 0 (Response (Fulfilled \<lparr>status = 200, statusText = []\<rparr>)),
        LoginGoesOn 0 (Json (Fulfilled (JObj [(''token'', JStr ''tok'')]))),
        LoginGoesOn 0 Settled]
       two_messages"

definition both_served :: world where
  "both_served =
     steps cfg0 rt0
       [LoginGoesOn 0 (Response (Fulfilled \<lparr>status = 200, statusText = []\<rparr>)),
        LoginGoesOn 0 (Json (Fulfilled (JObj [(''token'', JStr ''tok'')]))),
        LoginGoesOn 0 Settled, LoginGoesOn 0 Settled,
        HandlerGoesOn 0 Settled, HandlerGoesOn 0 Settled,
        HandlerGoesOn 1 Settled, HandlerGoesOn 1 Settled]
       two_messages"

text \<open>
  One position report arrives, the request of its login fails, the login attempt runs to
  its end, and the call of \<^verbatim>\<open>handleMessage\<close> that awaited the login goes on until it has
  returned.
\<close>

definition login_failed :: world where
  "login_failed =
     node_run cfg0 rt0
       [Arrives (Some message),
        LoginGoesOn 0 (Response (Rejected TypeError)),
        LoginGoesOn 0 Settled, LoginGoesOn 0 Settled,
        HandlerGoesOn 0 Settled, HandlerGoesOn 0 Settled, HandlerGoesOn 0 Settled]
       (started 0)"

text \<open>A message whose position report is a number.\<close>

definition misshapen :: jsval where
  "misshapen = JObj [(''Message'', JObj [(''PositionReport'', JNum (Finite 5))])]"

text \<open>
  A stored entry created on 2 January 1970 at 0:00 UTC with the given location, the body
  of a query response that holds just this entry, the environment in which a body parses
  to a given value, and a location that is not the one of \<open>report\<close>.
\<close>

definition entry :: "jsval \<Rightarrow> jsval" where
  "entry location = JObj [(''createdAt'', JStr ''1970-01-02T00:00:00.000Z''), (''location'', location)]"

definition history :: "jsval \<Rightarrow> jsval" where
  "history location = JObj [(''docs'', JArr [entry location])]"

definition parsed :: "jsval \<Rightarrow> answers" where
  "parsed payload = quiet\<lparr>json_read := Fulfilled payload\<rparr>"

definition elsewhere :: jsval where
  "elsewhere = JArr [JNum (Finite 1), JNum (Finite 2)]"

section \<open>Backoff delay\<close>

lemma reconnect_delay_mono: "m \<le> n \<Longrightarrow> reconnect_delay m \<le> reconnect_delay n"
proof -
  assume "m \<le> n"
  then have "(2::nat) ^ m \<le> 2 ^ n"
    by (simp add: power_increasing)
  then show ?thesis
    unfolding reconnect_delay_def by (simp add: min_le_iff_disj)
qed

lemma scheduleReconnect_timer:
  "reconnectTimer st = None \<Longrightarrow>
   timers (scheduleReconnect st) =
     timers st @ [(handles st, ReconnectTimeout (reconnect_delay (reconnectAttempts st)))]"
  by (simp add: scheduleReconnect_def setTimer_def console_log_def)

text \<open>
  C6. The delay of the timer that \<^verbatim>\<open>scheduleReconnect\<close> sets is
  \<open>min 30000 (1000 * 2 ^ n)\<close> milliseconds for the attempt count \<open>n\<close>; it is 1000 at 0
  and 30000 at 5 and at 10, it never exceeds 30000 and it does not decrease when the
  attempt count grows.
\<close>

theorem C6_backoff_delay:
  "(reconnectTimer st = None \<longrightarrow>
      timers (scheduleReconnect st) =
        timers st @ [(handles st, ReconnectTimeout (min 30000 (1000 * 2 ^ reconnectAttempts st)))])
   \<and> reconnect_delay n = min 30000 (1000 * 2 ^ n)
   \<and> reconnect_delay 0 = 1000 \<and> reconnect_delay 5 = 30000 \<and> reconnect_delay 10 = 30000
   \<and> reconnect_delay n \<le> 30000
   \<and> (m \<le> n \<longrightarrow> reconnect_delay m \<le> reconnect_delay n)"
proof -
  have "reconnectTimer st = None \<longrightarrow>
      timers (scheduleReconnect st) =
        timers st @ [(handles st, ReconnectTimeout (min 30000 (1000 * 2 ^ reconnectAttempts st)))]"
    using scheduleReconnect_timer [of st] by (simp add: reconnect_delay_def)
  moreover have "reconnect_delay 0 = 1000" "reconnect_delay 5 = 30000" "reconnect_delay 10 = 30000"
    by (simp_all add: reconnect_delay_def)
  moreover have "reconnect_delay n \<le> 30000"
    by (simp add: reconnect_delay_def)
  moreover have "m \<le> n \<longrightarrow> reconnect_delay m \<le> reconnect_delay n"
    by (simp add: reconnect_delay_mono)
  moreover have "reconnect_delay n = min 30000 (1000 * 2 ^ n)"
    by (simp add: reconnect_delay_def)
  ultimately show ?thesis
    by blast
qed

theorem C6_backoff_delay_witness:
  "reconnectTimer (loaded 0) = None
   \<and> timers (scheduleReconnect (loaded 0)) = [(0, ReconnectTimeout 1000)]
   \<and> (3::nat) \<le> 4 \<and> reconnect_delay 3 \<le> reconnect_delay 4"
  using C6_backoff_delay [of "loaded 0" 4 3]
  by (simp add: loaded_def connect_def console_log_def)

section \<open>Runs of composed calls\<close>

lemma run_bind:
  "run (bind t f) env n =
     after (trace (run t env n))
       (run (f (result (run t env n)) (final (run t env n))) env
          (n + suspensions (trace (run t env n))))"
proof (induction t arbitrary: n)
  case (Return r s)
  show ?case
    by (simp add: after_def trace_def result_def final_def)
next
  case (Spawn p t rest)
  then show ?case
    by (simp add: after_def trace_def result_def final_def split: prod.splits)
next
  case (AwaitFetch rq s k)
  show ?case
    by (simp add: AwaitFetch.IH[OF rangeI rangeI] after_def trace_def result_def final_def
        split: prod.splits)
next
  case (AwaitText rs s k)
  show ?case
    by (simp add: AwaitText.IH[OF rangeI rangeI] after_def trace_def result_def final_def
        split: prod.splits)
next
  case (AwaitJson rs s k)
  show ?case
    by (simp add: AwaitJson.IH[OF rangeI rangeI] after_def trace_def result_def final_def
        split: prod.splits)
next
  case (AwaitPromise p s k)
  show ?case
    by (simp add: AwaitPromise.IH[OF rangeI rangeI] after_def trace_def result_def final_def
        split: prod.splits)
next
  case (Tick s k)
  show ?case
    by (simp add: Tick.IH[OF rangeI] after_def trace_def result_def final_def split: prod.splits)
qed

lemma run_await:
  "run (await t f) env n =
     (let R = run t env n; m = n + suspensions (trace R) in
      after (trace R @ [Turn (final R)])
        (run (f (result R) (interference (env m) (final R))) env (Suc m)))"
  by (simp add: await_def run_bind Let_def after_def trace_def result_def final_def
      split: prod.splits)

lemma calls_append: "calls (pre @ tr) = calls pre @ calls tr"
  by (induction pre rule: calls.induct) auto

lemma after_call_append: "calls pre = [] \<Longrightarrow> after_call (pre @ tr) = after_call tr"
  by (induction pre rule: calls.induct) auto

lemma no_calls_no_fetch: "calls pre = [] \<Longrightarrow> Fetched rq a s \<notin> set pre"
  by (induction pre rule: calls.induct) auto

section \<open>The authorized request\<close>

text \<open>How a call of \<^verbatim>\<open>ensureCmsSession\<close> runs: four cases.\<close>

lemma run_ensure_cases:
  "run (ensureCmsSession cfg rt st) env n = (Fulfilled (cmsAuthToken st), st, [])
     \<and> truthy (cmsAuthToken st)
   \<or> (\<exists>s. run (ensureCmsSession cfg rt st) env n = (Fulfilled JNull, s, [])
         \<and> cmsAuthToken s = cmsAuthToken st \<and> \<not> truthy (cmsAuthToken st))
   \<or> (\<exists>p s. run (ensureCmsSession cfg rt st) env n
           = (promised (env n), interference (env n) s, [Awaited p (promised (env n)) s])
         \<and> cmsAuthToken s = cmsAuthToken st \<and> \<not> truthy (cmsAuthToken st))
   \<or> (\<exists>p s. run (ensureCmsSession cfg rt st) env n
           = (promised (env n), interference (env n) s, [Spawned p, Awaited p (promised (env n)) s])
         \<and> cmsAuthToken s = cmsAuthToken st \<and> \<not> truthy (cmsAuthToken st))"
  by (auto simp add: ensureCmsSession_def Let_def warnMissingCmsHost_def warnMissingCmsCreds_def
      console_log_def pending_login_def login_attempt_def loginToCms_def await_def
      split: option.splits)

lemma performAuthorizedRequest_parts:
  "performAuthorizedRequest cfg rt requestFactory st =
     (if \<not> truthy (cmsAuthToken st)
      then await (ensureCmsSession cfg rt st) (or_throw (\<lambda>_ s. with_session cfg rt requestFactory s))
      else with_session cfg rt requestFactory st)"
  unfolding performAuthorizedRequest_def with_session_def [abs_def] retry_def [abs_def]
    reauth_error_def Let_def
  by (rule refl)

lemma run_retry:
  "cmsAuthToken st = JNull \<Longrightarrow>
   R = run (await (ensureCmsSession cfg rt st) (or_throw (\<lambda>_ s. retry rf s))) env n \<Longrightarrow>
   length (calls (trace R)) \<le> 1
   \<and> (\<exists>e\<in>set (trace R). \<exists>s. left e = Some s \<and> cmsAuthToken s = JNull)
   \<and> (\<forall>rq a s. Fetched rq a s \<in> set (trace R) \<longrightarrow> truthy (cmsAuthToken s) \<and> rq = rf s)
   \<and> (calls (trace R) = [] \<longrightarrow>
        (result R = Rejected reauth_error \<and> \<not> truthy (cmsAuthToken (final R)))
        \<or> (\<exists>p e s. Awaited p (Rejected e) s \<in> set (trace R) \<and> result R = Rejected e))
   \<and> (\<forall>rq a. calls (trace R) = [(rq, a)] \<longrightarrow> result R = a)"
  using run_ensure_cases [of cfg rt st env n]
  by (auto simp add: run_await Let_def or_throw_def retry_def after_def trace_def result_def
      final_def split: settled.splits)

lemma run_with_session: "request_summary rf (run (with_session cfg rt rf s) env m)"
proof (cases "truthy (cmsAuthToken s)")
  case False
  then show ?thesis
    by (simp add: with_session_def request_summary_def trace_def result_def)
next
  case True
  show ?thesis
  proof (cases "fetched (env m)")
    case (Rejected e)
    then show ?thesis
      using True by (simp add: with_session_def request_summary_def trace_def result_def or_throw_def)
  next
    case (Fulfilled response)
    show ?thesis
    proof (cases "status response = 401 \<or> status response = 403")
      case False
      then show ?thesis
        using True Fulfilled
        by (simp add: with_session_def request_summary_def trace_def result_def or_throw_def)
    next
      case unauthorized: True
      define st' where "st' = (interference (env m) s)\<lparr>cmsAuthToken := JNull\<rparr>"
      define R' where
        "R' = run (await (ensureCmsSession cfg rt st') (or_throw (\<lambda>_ s. retry rf s))) env (Suc m)"
      have "cmsAuthToken st' = JNull"
        by (simp add: st'_def)
      note r = run_retry [OF this R'_def]
      have R: "run (with_session cfg rt rf s) env m = after [Fetched (rf s) (Fulfilled response) s] R'"
        using True Fulfilled unauthorized
        by (auto simp add: with_session_def or_throw_def R'_def st'_def after_def split: prod.splits)
      have "calls (trace R') = [] \<or> (\<exists>rq a. calls (trace R') = [(rq, a)])"
        using r by (cases "calls (trace R')") auto
      then show ?thesis
        unfolding R using r True unauthorized
        by (auto simp add: request_summary_def after_def trace_def result_def final_def Let_def)
    qed
  qed
qed

lemma request_summary_after:
  assumes "calls pre = []" and "request_summary rf R"
  shows "request_summary rf (after pre R)"
proof -
  have t: "trace (after pre R) = pre @ trace R" "result (after pre R) = result R"
    "final (after pre R) = final R"
    by (simp_all add: after_def trace_def result_def final_def)
  show ?thesis
    using assms(2) no_calls_no_fetch [OF assms(1)]
    unfolding request_summary_def t calls_append after_call_append [OF assms(1)] assms(1)
    by simp
qed

lemma request_summary_no_session: "calls pre = [] \<Longrightarrow> request_summary rf (Rejected e, s, pre)"
  using no_calls_no_fetch [of pre]
  by (simp add: request_summary_def trace_def result_def)

lemma run_performAuthorizedRequest:
  "request_summary rf (run (performAuthorizedRequest cfg rt rf st) env n)"
proof (cases "truthy (cmsAuthToken st)")
  case True
  then show ?thesis
    by (simp add: performAuthorizedRequest_parts run_with_session)
next
  case False
  define W where "W = with_session cfg rt rf"
  have W: "request_summary rf (run (W s) env m)" for s m
    by (simp add: W_def run_with_session)
  have X: "run (performAuthorizedRequest cfg rt rf st) env n =
           run (await (ensureCmsSession cfg rt st) (or_throw (\<lambda>_ s. W s))) env n"
    using False by (simp add: performAuthorizedRequest_parts W_def)
  from run_ensure_cases [of cfg rt st env n] False
  consider s where "run (ensureCmsSession cfg rt st) env n = (Fulfilled JNull, s, [])"
    | p s where "run (ensureCmsSession cfg rt st) env n
        = (promised (env n), interference (env n) s, [Awaited p (promised (env n)) s])"
    | p s where "run (ensureCmsSession cfg rt st) env n
        = (promised (env n), interference (env n) s, [Spawned p, Awaited p (promised (env n)) s])"
    by blast
  then show ?thesis
  proof cases
    case 1
    have "run (performAuthorizedRequest cfg rt rf st) env n
          = after [Turn s] (run (W (interference (env n) s)) env (Suc n))"
      unfolding X by (simp add: run_await 1 Let_def or_throw_def trace_def result_def final_def)
    then show ?thesis
      by (simp add: request_summary_after W)
  next
    case 2
    show ?thesis
    proof (cases "promised (env n)")
      case (Fulfilled v)
      have "run (performAuthorizedRequest cfg rt rf st) env n =
            after [Awaited p (promised (env n)) s, Turn (interference (env n) s)]
              (run (W (interference (env (Suc n)) (interference (env n) s))) env (Suc (Suc n)))"
        unfolding X
        by (simp add: run_await 2 Fulfilled Let_def or_throw_def trace_def result_def final_def)
      then show ?thesis
        by (simp add: request_summary_after W)
    next
      case (Rejected e)
      have "run (performAuthorizedRequest cfg rt rf st) env n =
            (Rejected e, interference (env (Suc n)) (interference (env n) s),
             [Awaited p (promised (env n)) s, Turn (interference (env n) s)])"
        unfolding X
        by (simp add: run_await 2 Rejected Let_def or_throw_def trace_def result_def final_def
            after_def)
      then show ?thesis
        by (simp add: request_summary_no_session)
    qed
  next
    case 3
    show ?thesis
    proof (cases "promised (env n)")
      case (Fulfilled v)
      have "run (performAuthorizedRequest cfg rt rf st) env n =
            after [Spawned p, Awaited p (promised (env n)) s, Turn (interference (env n) s)]
              (run (W (interference (env (Suc n)) (interference (env n) s))) env (Suc (Suc n)))"
        unfolding X
        by (simp add: run_await 3 Fulfilled Let_def or_throw_def trace_def result_def final_def)
      then show ?thesis
        by (simp add: request_summary_after W)
    next
      case (Rejected e)
      have "run (performAuthorizedRequest cfg rt rf st) env n =
            (Rejected e, interference (env (Suc n)) (interference (env n) s),
             [Spawned p, Awaited p (promised (env n)) s, Turn (interference (env n) s)])"
        unfolding X
        by (simp add: run_await 3 Rejected Let_def or_throw_def trace_def result_def final_def
            after_def)
      then show ?thesis
        by (simp add: request_summary_no_session)
    qed
  qed
qed

lemma run_with_session_eq:
  "run (with_session cfg rt rf s) env n = session_run cfg rt rf s env n"
  unfolding with_session_def session_run_def
  by (simp add: run_await Let_def or_throw_def retry_def reauth_error_def after_def trace_def
      result_def final_def split: settled.splits prod.splits)

lemma ensure_calls: "calls (trace (run (ensureCmsSession cfg rt st) env n)) = []"
  using run_ensure_cases [of cfg rt st env n] by (auto simp add: trace_def)

text \<open>
  C1, as stated, fails in its last part. The first call is answered with status 401; the
  token is set to \<^verbatim>\<open>null\<close> and the session is ensured again, but the login that
  \<^verbatim>\<open>ensureCmsSession\<close> awaits is rejected (here with the \<^verbatim>\<open>TypeError\<close> of a request that did
  not get through). No credential has been obtained, and \<^verbatim>\<open>performAuthorizedRequest\<close>
  fails with the error of the login, not with the explicit error that the token is
  missing after re-authentication.
\<close>

theorem C1_counterexample:
  "result (run (performAuthorizedRequest cfg0 rt0 (postAisLog cfg0 rt0 report) (authed 0))
             (script [responded 401, quiet]) 0) = Rejected TypeError
   \<and> cmsAuthToken (final (run (performAuthorizedRequest cfg0 rt0 (postAisLog cfg0 rt0 report) (authed 0))
             (script [responded 401, quiet]) 0)) = JNull
   \<and> map snd (calls (trace (run (performAuthorizedRequest cfg0 rt0 (postAisLog cfg0 rt0 report) (authed 0))
             (script [responded 401, quiet]) 0)))
        = [Fulfilled \<lparr>status = 401, statusText = []\<rparr>]"
  by (simp add: performAuthorizedRequest_def ensureCmsSession_def pending_login_def
      login_attempt_def loginToCms_def await_def or_throw_def Let_def script_def responded_def
      quiet_def authed_def loaded_def connect_def console_log_def cfg0_def
      cmsLoginUrl_def is_set_def trace_def result_def final_def)

text \<open>
  C1, amended. Whatever the environment answers and whatever the other turns do to the
  module state, a run of \<^verbatim>\<open>performAuthorizedRequest\<close> is the following. Without a token
  cached it first runs \<^verbatim>\<open>ensureCmsSession\<close> and throws what that throws. Then, one turn
  later, it throws if still no token is cached, and otherwise calls the request factory.
  A failure of that call, or a response whose status is neither 401 nor 403, is the
  result. On 401 or 403 it sets the token to \<^verbatim>\<open>null\<close> and runs \<^verbatim>\<open>ensureCmsSession\<close> again,
  in the state so changed and before anything else. If that call throws (a failed login),
  its error is the result. If it returns and no token is cached one turn later, the
  result is the explicit error \<^verbatim>\<open>Missing Payload auth token after re-authentication\<close>.
  Otherwise the factory is called a second and last time, and the answer to that call
  is the result as it is, a 401 or 403 included. \<^verbatim>\<open>ensureCmsSession\<close> itself never calls
  the factory, so that the function issues at most two calls and does not go round again.
\<close>

theorem C1_authorized_request:
  "run (performAuthorizedRequest cfg rt requestFactory st) env n =
     (if truthy (cmsAuthToken st) then session_run cfg rt requestFactory st env n
      else
        (let E = run (ensureCmsSession cfg rt st) env n;
             m = n + suspensions (trace E);
             g = interference (env m) (final E)
         in after (trace E @ [Turn (final E)])
              (case result E of
                 Rejected e \<Rightarrow> (Rejected e, g, [])
               | Fulfilled v \<Rightarrow> session_run cfg rt requestFactory g env (Suc m))))
   \<and> calls (trace (run (ensureCmsSession cfg rt st') env n')) = []
   \<and> length (calls (trace (run (performAuthorizedRequest cfg rt requestFactory st) env n))) \<le> 2"
proof -
  have "run (performAuthorizedRequest cfg rt requestFactory st) env n =
     (if truthy (cmsAuthToken st) then session_run cfg rt requestFactory st env n
      else
        (let E = run (ensureCmsSession cfg rt st) env n;
             m = n + suspensions (trace E);
             g = interference (env m) (final E)
         in after (trace E @ [Turn (final E)])
              (case result E of
                 Rejected e \<Rightarrow> (Rejected e, g, [])
               | Fulfilled v \<Rightarrow> session_run cfg rt requestFactory g env (Suc m))))"
    unfolding performAuthorizedRequest_parts
    by (simp add: run_await run_with_session_eq Let_def or_throw_def split: settled.splits)
  moreover have "length (calls (trace (run (performAuthorizedRequest cfg rt requestFactory st) env n))) \<le> 2"
    using run_performAuthorizedRequest [of requestFactory cfg rt st env n]
    by (simp add: request_summary_def Let_def)
  ultimately show ?thesis
    using ensure_calls [of cfg rt st' env n'] by blast
qed

text \<open>
  The run in which both calls are made: the first is answered with 401, the login that
  the session manager then starts and awaits puts a fresh token in place, and the second
  call, made with that token, is answered with 403, which is the result.
\<close>

theorem C1_authorized_request_witness:
  "truthy (cmsAuthToken (authed 0))
   \<and> run (performAuthorizedRequest cfg0 rt0 (postAisLog cfg0 rt0 report) (authed 0))
        (script [responded 401, logged_in, quiet, responded 403]) 0
      = (Fulfilled \<lparr>status = 403, statusText = []\<rparr>,
         (authed 0)\<lparr>cmsAuthToken := JStr ''fresh'', pendingCmsLogin := Some 0, promises := Suc 0\<rparr>,
         [Fetched (postAisLog cfg0 rt0 report (authed 0)) (Fulfilled \<lparr>status = 401, statusText = []\<rparr>) (authed 0),
          Spawned 0,
          Awaited 0 (Fulfilled (JStr ''fresh''))
            ((authed 0)\<lparr>cmsAuthToken := JNull, pendingCmsLogin := Some 0, promises := Suc 0\<rparr>),
          Turn ((authed 0)\<lparr>cmsAuthToken := JStr ''fresh'', pendingCmsLogin := Some 0, promises := Suc 0\<rparr>),
          Fetched (postAisLog cfg0 rt0 report
                     ((authed 0)\<lparr>cmsAuthToken := JStr ''fresh'', pendingCmsLogin := Some 0, promises := Suc 0\<rparr>))
            (Fulfilled \<lparr>status = 403, statusText = []\<rparr>)
            ((authed 0)\<lparr>cmsAuthToken := JStr ''fresh'', pendingCmsLogin := Some 0, promises := Suc 0\<rparr>)])
   \<and> map_of (headers (postAisLog cfg0 rt0 report (authed 0))) ''Authorization'' = Some ''Bearer token''
   \<and> map_of (headers (postAisLog cfg0 rt0 report
         ((authed 0)\<lparr>cmsAuthToken := JStr ''fresh'', pendingCmsLogin := Some 0, promises := Suc 0\<rparr>)))
        ''Authorization'' = Some ''Bearer fresh''"
proof -
  have t: "truthy (cmsAuthToken (authed 0))"
    by (simp add: authed_def)
  have "session_run cfg0 rt0 (postAisLog cfg0 rt0 report) (authed 0)
          (script [responded 401, logged_in, quiet, responded 403]) 0
        = (Fulfilled \<lparr>status = 403, statusText = []\<rparr>,
           (authed 0)\<lparr>cmsAuthToken := JStr ''fresh'', pendingCmsLogin := Some 0, promises := Suc 0\<rparr>,
           [Fetched (postAisLog cfg0 rt0 report (authed 0)) (Fulfilled \<lparr>status = 401, statusText = []\<rparr>) (authed 0),
            Spawned 0,
            Awaited 0 (Fulfilled (JStr ''fresh''))
              ((authed 0)\<lparr>cmsAuthToken := JNull, pendingCmsLogin := Some 0, promises := Suc 0\<rparr>),
            Turn ((authed 0)\<lparr>cmsAuthToken := JStr ''fresh'', pendingCmsLogin := Some 0, promises := Suc 0\<rparr>),
            Fetched (postAisLog cfg0 rt0 report
                       ((authed 0)\<lparr>cmsAuthToken := JStr ''fresh'', pendingCmsLogin := Some 0, promises := Suc 0\<rparr>))
              (Fulfilled \<lparr>status = 403, statusText = []\<rparr>)
              ((authed 0)\<lparr>cmsAuthToken := JStr ''fresh'', pendingCmsLogin := Some 0, promises := Suc 0\<rparr>)])"
    by (simp add: session_run_def ensureCmsSession_def pending_login_def
        login_attempt_def loginToCms_def await_def or_throw_def Let_def script_def responded_def
        logged_in_def quiet_def authed_def loaded_def connect_def console_log_def cfg0_def
        cmsLoginUrl_def is_set_def trace_def result_def final_def after_def)
  with t show ?thesis
    using C1_authorized_request [of cfg0 rt0 "postAisLog cfg0 rt0 report" "authed 0"
        "script [responded 401, logged_in, quiet, responded 403]" 0]
    by (simp add: postAisLog_def authed_def)
qed

section \<open>Turns of the event loop\<close>

lemma turn_of_bind:
  "turn_of (bind t f) =
     (case outcome t of
        None \<Rightarrow> turn_of t
      | Some r \<Rightarrow> (spawned t @ spawned (f r (state_of t)), outcome (f r (state_of t)) \<noteq> None,
                   state_of (f r (state_of t))))"
  by (induction t) (auto simp add: turn_of_def split: option.splits)

lemma turn_bind:
  assumes "R g (turn_of t)"
    and "\<And>sp s r. R g (sp, True, s) \<Longrightarrow>
           R g (sp @ spawned (f r s), outcome (f r s) \<noteq> None, state_of (f r s))"
  shows "R g (turn_of (bind t f))"
proof (cases "outcome t")
  case None
  then show ?thesis
    using assms(1) by (simp add: turn_of_bind)
next
  case (Some r)
  then have "R g (spawned t, True, state_of t)"
    using assms(1) by (simp add: turn_of_def)
  from assms(2) [OF this] show ?thesis
    using Some by (simp add: turn_of_bind)
qed

lemma maintains_bind:
  assumes "maintains R t"
    and "\<And>r s. maintains R (f r s)"
    and "\<And>g sp s r. R g (sp, True, s) \<Longrightarrow>
           R g (sp @ spawned (f r s), outcome (f r s) \<noteq> None, state_of (f r s))"
  shows "maintains R (bind t f)"
  using assms(1)
proof (induction t)
  case (Return r s)
  show ?case
    by (simp add: assms(2))
next
  case (Spawn p t rest)
  then show ?case
    by simp
next
  case (AwaitFetch rq s k)
  have "R g (turn_of (bind (k a g) f)) \<and> maintains R (bind (k a g) f)" for a g
    using AwaitFetch.prems AwaitFetch.IH [OF rangeI rangeI, of a g] turn_bind [of R g "k a g" f] assms(3)
    by simp
  then show ?case
    by simp
next
  case (AwaitText rs s k)
  have "R g (turn_of (bind (k a g) f)) \<and> maintains R (bind (k a g) f)" for a g
    using AwaitText.prems AwaitText.IH [OF rangeI rangeI, of a g] turn_bind [of R g "k a g" f] assms(3)
    by simp
  then show ?case
    by simp
next
  case (AwaitJson rs s k)
  have "R g (turn_of (bind (k a g) f)) \<and> maintains R (bind (k a g) f)" for a g
    using AwaitJson.prems AwaitJson.IH [OF rangeI rangeI, of a g] turn_bind [of R g "k a g" f] assms(3)
    by simp
  then show ?case
    by simp
next
  case (AwaitPromise p s k)
  have "R g (turn_of (bind (k a g) f)) \<and> maintains R (bind (k a g) f)" for a g
    using AwaitPromise.prems AwaitPromise.IH [OF rangeI rangeI, of a g] turn_bind [of R g "k a g" f] assms(3)
    by simp
  then show ?case
    by simp
next
  case (Tick s k)
  have "R g (turn_of (bind (k g) f)) \<and> maintains R (bind (k g) f)" for g
    using Tick.prems Tick.IH [OF rangeI, of g] turn_bind [of R g "k g" f] assms(3)
    by simp
  then show ?case
    by simp
qed

lemma same_refl [simp]: "same g g"
  by (simp add: same_def quiet_turn_def)

lemma same_trans: "same g s \<Longrightarrow> same s s' \<Longrightarrow> same g s'"
  by (auto simp add: same_def quiet_turn_def)

lemma handler_turns_comp:
  assumes "handler_turns g (sp, fin, s)" and "handler_turns s (sp', fin', s')"
  shows "handler_turns g (sp @ sp', fin', s')"
proof -
  have q: "quiet_turn g s'"
    using assms by (simp add: handler_turns_def quiet_turn_def)
  consider "sp = []" "pendingCmsLogin s = pendingCmsLogin g" "promises s = promises g"
    | t where "pendingCmsLogin g = None" "sp = [(promises g, t)]"
        "pendingCmsLogin s = Some (promises g)" "promises s = Suc (promises g)"
        "outcome t = None" "maintains login_turns t"
    using assms(1) by (auto simp add: handler_turns_def)
  then show ?thesis
  proof cases
    case 1
    then show ?thesis
      using assms(2) q by (simp add: handler_turns_def)
  next
    case 2
    then have "sp' = []" "pendingCmsLogin s' = Some (promises g)" "promises s' = Suc (promises g)"
      using assms(2) by (auto simp add: handler_turns_def)
    then show ?thesis
      using 2 q by (simp add: handler_turns_def)
  qed
qed

lemma handler_turns_same: "handler_turns g ([], fin, s) = same g s"
  by (auto simp add: handler_turns_def same_def)

lemma fine_Return: "same g s \<Longrightarrow> fine (Return r s) g"
  by (simp add: fine_def turn_of_def handler_turns_same)

lemma fine_AwaitFetch: "same g s \<Longrightarrow> (\<And>a g'. fine (k a g') g') \<Longrightarrow> fine (AwaitFetch rq s k) g"
  by (simp add: fine_def turn_of_def handler_turns_same)

lemma fine_AwaitText: "same g s \<Longrightarrow> (\<And>a g'. fine (k a g') g') \<Longrightarrow> fine (AwaitText rs s k) g"
  by (simp add: fine_def turn_of_def handler_turns_same)

lemma fine_AwaitJson: "same g s \<Longrightarrow> (\<And>a g'. fine (k a g') g') \<Longrightarrow> fine (AwaitJson rs s k) g"
  by (simp add: fine_def turn_of_def handler_turns_same)

lemma fine_AwaitPromise: "same g s \<Longrightarrow> (\<And>a g'. fine (k a g') g') \<Longrightarrow> fine (AwaitPromise p s k) g"
  by (simp add: fine_def turn_of_def handler_turns_same)

lemma fine_from: "same g g' \<Longrightarrow> fine t g' \<Longrightarrow> fine t g"
  unfolding fine_def
  using handler_turns_comp [of g "[]" True g' "spawned t" "outcome t \<noteq> None" "state_of t"]
  by (simp add: handler_turns_same turn_of_def)

lemma fine_await:
  assumes "fine t g" and "\<And>r s. fine (f r s) s"
  shows "fine (await t f) g"
proof -
  have c: "handler_turns g' (sp @ spawned (Tick s (f r)), outcome (Tick s (f r)) \<noteq> None, state_of (Tick s (f r)))"
    if "handler_turns g' (sp, True, s)" for g' sp s r
    using that by (simp add: handler_turns_def)
  have t: "handler_turns g (turn_of t)" "maintains handler_turns t"
    using assms(1) by (simp_all add: fine_def)
  have k: "maintains handler_turns (Tick s (f r))" for r s
    using assms(2) by (simp add: fine_def)
  have "handler_turns g (turn_of (bind t (\<lambda>r s. Tick s (f r))))"
    by (rule turn_bind [where R = handler_turns, OF t(1)]) (rule c)
  moreover have "maintains handler_turns (bind t (\<lambda>r s. Tick s (f r)))"
    by (rule maintains_bind [where R = handler_turns, OF t(2)]) (rule k, rule c)
  ultimately show ?thesis
    by (simp add: fine_def await_def)
qed

lemma fine_or_throw: "(\<And>v. fine (f v s) s) \<Longrightarrow> fine (or_throw f r s) s"
  by (cases r) (simp_all add: or_throw_def fine_Return)

lemma same_console_log: "same g s \<Longrightarrow> same g (console_log line s)"
  by (auto simp add: same_def quiet_turn_def console_log_def connection_def)

lemma same_warnHost: "same g s \<Longrightarrow> same g (warnMissingCmsHost s)"
  by (auto simp add: same_def quiet_turn_def warnMissingCmsHost_def console_log_def connection_def)

lemma same_warnCreds: "same g s \<Longrightarrow> same g (warnMissingCmsCreds s)"
  by (auto simp add: same_def quiet_turn_def warnMissingCmsCreds_def console_log_def connection_def)

lemma same_token: "same g s \<Longrightarrow> same g (s\<lparr>cmsAuthToken := v\<rparr>)"
  by (auto simp add: same_def quiet_turn_def connection_def)

lemma login_ok: "maintains login_turns (pending_login cfg rt g :: login)"
  by (simp add: pending_login_def login_attempt_def loginToCms_def await_def or_throw_def Let_def
      turn_of_def login_turns_def quiet_turn_def connection_def console_log_def login_finally_def
      finally_promise_def warnMissingCmsHost_def warnMissingCmsCreds_def
      split: settled.splits)

lemma pending_login_head:
  "cmsLoginUrl cfg \<noteq> None \<Longrightarrow> is_set (CMS_EMAIL cfg) \<Longrightarrow> is_set (CMS_PASSWORD cfg) \<Longrightarrow>
   outcome (pending_login cfg rt g :: login) = None \<and> state_of (pending_login cfg rt g :: login) = g
   \<and> spawned (pending_login cfg rt g :: login) = []"
  by (auto simp add: pending_login_def login_attempt_def loginToCms_def await_def)

lemma fine_ensure: "fine (ensureCmsSession cfg rt g) g"
proof (cases "truthy (cmsAuthToken g) \<or> cmsLoginUrl cfg = None \<or> \<not> is_set (CMS_EMAIL cfg) \<or> \<not> is_set (CMS_PASSWORD cfg)")
  case True
  then show ?thesis
    by (auto simp add: ensureCmsSession_def intro!: fine_Return same_warnHost same_warnCreds)
next
  case False
  show ?thesis
  proof (cases "pendingCmsLogin g")
    case (Some p)
    then show ?thesis
      using False by (auto simp add: ensureCmsSession_def intro!: fine_AwaitPromise fine_Return)
  next
    case None
    have h: "outcome (pending_login cfg rt g :: login) = None" "state_of (pending_login cfg rt g :: login) = g"
      using pending_login_head [of cfg rt g] False by auto
    show ?thesis
      using False None h login_ok [of cfg rt g]
      by (auto simp add: ensureCmsSession_def fine_def turn_of_def handler_turns_def Let_def
        quiet_turn_def connection_def)
  qed
qed

lemma fine_retry: "fine (retry rf s) s"
  by (simp add: retry_def fine_Return fine_AwaitFetch)

lemma fine_reensure:
  "fine (await (ensureCmsSession cfg rt (s\<lparr>cmsAuthToken := JNull\<rparr>)) (or_throw (\<lambda>_ s. retry rf s))) s"
  by (intro fine_await fine_or_throw fine_retry fine_from [OF _ fine_ensure] same_token same_refl)

lemma fine_with_session: "fine (with_session cfg rt rf s) s"
  unfolding with_session_def
  by (auto intro!: fine_Return fine_AwaitFetch fine_or_throw fine_reensure)

lemma fine_request: "fine (performAuthorizedRequest cfg rt rf g) g"
  unfolding performAuthorizedRequest_parts
  by (auto intro!: fine_await fine_or_throw fine_ensure fine_with_session)

lemma fine_shouldPersist:
  "truthy (cmsAuthToken g) \<Longrightarrow> fine (shouldPersistPositionReport cfg rt pr g) g"
  unfolding shouldPersistPositionReport_def Let_def
  by (auto intro!: fine_Return fine_await fine_request fine_AwaitText fine_AwaitJson fine_or_throw
      same_warnHost same_console_log split: settled.splits)

lemma fine_persist: "fine (persistPositionReport cfg rt pr g) g"
  unfolding persistPositionReport_def
  by (auto intro!: fine_Return fine_await fine_request fine_AwaitText fine_ensure fine_shouldPersist
      same_warnHost same_warnCreds same_console_log split: settled.splits)

lemma fine_handleMessage: "fine (handleMessage cfg rt data g) g"
proof -
  have s: "same g (console_log line (console_log ''AIS Message'' (g\<lparr>minutesWaited := 0\<rparr>)))" for line
    by (simp add: same_def quiet_turn_def connection_def console_log_def)
  show ?thesis
    unfolding handleMessage_def Let_def
    by (auto intro!: fine_Return fine_await fine_from [OF s fine_persist] same_console_log s
        split: settled.splits option.splits)
qed

lemma distinct_cleared:
  "distinct (map fst xs) \<Longrightarrow> distinct (map fst (filter P xs))"
  by (induction xs) auto

lemma reconnects_cleared:
  assumes "(h, t) \<in> set xs" "\<not> is_reconnect (h, t)" "distinct (map fst xs)"
  shows "filter (\<lambda>x. (case x of (h', t) \<Rightarrow> h' \<noteq> h) \<and> is_reconnect x) xs = filter is_reconnect xs"
proof (rule filter_cong [OF refl])
  fix x
  assume x: "x \<in> set xs"
  obtain h' t' where p: "x = (h', t')"
    by (cases x)
  have "h' \<noteq> h" if "is_reconnect x"
    using that assms(2) eq_key_imp_eq_value [OF assms(3) assms(1), of t'] x p by auto
  then show "((case x of (h', t) \<Rightarrow> h' \<noteq> h) \<and> is_reconnect x) = is_reconnect x"
    using p by auto
qed

lemma timers_ok_set_interval:
  assumes "timers_ok st" "t = InactivityInterval \<or> t = PingInterval"
  shows "timers_ok ((snd (setTimer t st))\<lparr>inactivityTimer := (if t = InactivityInterval then Some (handles st) else inactivityTimer st),
      pingTimer := (if t = PingInterval then Some (handles st) else pingTimer st)\<rparr>)"
  using assms
  by (fastforce simp add: timers_ok_def setTimer_def reconnects_def split: option.splits)

lemma timers_ok_clear_inactivity:
  assumes "timers_ok st" "inactivityTimer st = Some h"
  shows "timers_ok ((clearInterval h st)\<lparr>inactivityTimer := None\<rparr>)"
proof -
  have m: "(h, InactivityInterval) \<in> set (timers st)" and d: "distinct (map fst (timers st))"
    using assms by (auto simp add: timers_ok_def)
  have r: "filter (\<lambda>x. (case x of (h', t) \<Rightarrow> h' \<noteq> h) \<and> is_reconnect x) (timers st)
           = filter is_reconnect (timers st)"
    by (rule reconnects_cleared [OF m _ d]) simp
  have p: "(h', PingInterval) \<in> set (timers st) \<Longrightarrow> h' \<noteq> h" for h'
    using m d by (metis eq_key_imp_eq_value timer.distinct(5))
  show ?thesis
    using assms p
    by (auto simp add: timers_ok_def clearInterval_def reconnects_def r distinct_cleared
        split: option.splits)
qed

lemma timers_ok_clear_ping:
  assumes "timers_ok st" "pingTimer st = Some h"
  shows "timers_ok ((clearInterval h st)\<lparr>pingTimer := None\<rparr>)"
proof -
  have m: "(h, PingInterval) \<in> set (timers st)" and d: "distinct (map fst (timers st))"
    using assms by (auto simp add: timers_ok_def)
  have r: "filter (\<lambda>x. (case x of (h', t) \<Rightarrow> h' \<noteq> h) \<and> is_reconnect x) (timers st)
           = filter is_reconnect (timers st)"
    by (rule reconnects_cleared [OF m _ d]) simp
  have p: "(h', InactivityInterval) \<in> set (timers st) \<Longrightarrow> h' \<noteq> h" for h'
    using m d by (metis eq_key_imp_eq_value timer.distinct(5))
  show ?thesis
    using assms p
    by (auto simp add: timers_ok_def clearInterval_def reconnects_def r distinct_cleared
        split: option.splits)
qed

lemma timers_ok_connection: "connection s = connection g \<Longrightarrow> timers_ok s = timers_ok g"
  unfolding connection_def timers_ok_def reconnects_def by (auto split: option.splits)

lemma timers_ok_console_log [simp]: "timers_ok (console_log line st) = timers_ok st"
  by (rule timers_ok_connection) (simp add: connection_def console_log_def)

lemma timers_ok_startInactivityTimer:
  assumes "timers_ok st"
  shows "timers_ok (startInactivityTimer st)"
proof (cases "inactivityTimer st")
  case None
  then show ?thesis
    using timers_ok_set_interval [OF assms, of InactivityInterval]
    by (simp add: startInactivityTimer_def case_prod_beta setTimer_def)
next
  case (Some h)
  define st1 where "st1 = (clearInterval h st)\<lparr>inactivityTimer := None\<rparr>"
  have "timers_ok st1"
    unfolding st1_def by (rule timers_ok_clear_inactivity [OF assms Some])
  from timers_ok_set_interval [OF this, of InactivityInterval]
  have "timers_ok ((snd (setTimer InactivityInterval st1))\<lparr>inactivityTimer := Some (handles st1)\<rparr>)"
    by (simp add: setTimer_def)
  moreover have "startInactivityTimer st
      = (snd (setTimer InactivityInterval st1))\<lparr>inactivityTimer := Some (handles st1)\<rparr>"
    using Some by (simp add: startInactivityTimer_def st1_def case_prod_beta setTimer_def clearInterval_def)
  ultimately show ?thesis
    by simp
qed

lemma timers_ok_clearInactivityTimer: "timers_ok st \<Longrightarrow> timers_ok (clearInactivityTimer st)"
  by (auto simp add: clearInactivityTimer_def timers_ok_clear_inactivity split: option.splits)

lemma timers_ok_scheduleReconnect:
  assumes "timers_ok st"
  shows "timers_ok (scheduleReconnect st)"
proof (cases "reconnectTimer st")
  case (Some h)
  then show ?thesis
    using assms by (simp add: scheduleReconnect_def)
next
  case None
  then show ?thesis
    using assms
    by (fastforce simp add: scheduleReconnect_def timers_ok_def setTimer_def reconnects_def
        console_log_def Let_def)
qed

lemma timers_ok_sendSubscription: "timers_ok st \<Longrightarrow> timers_ok (sendSubscription cfg ready st)"
proof -
  assume a: "timers_ok st"
  have "timers_ok (st\<lparr>subscriptions := Suc (subscriptions st)\<rparr>) = timers_ok st"
    by (rule timers_ok_connection) (simp add: connection_def)
  then have "timers_ok (st\<lparr>subscriptions := Suc (subscriptions st)\<rparr>)"
    using a by simp
  then show ?thesis
    using a by (simp add: sendSubscription_def timers_ok_startInactivityTimer)
qed

lemma timers_ok_handleOpen:
  assumes "timers_ok st"
  shows "timers_ok (handleOpen cfg ready st)"
proof -
  define st1 where "st1 = (console_log ''AIS stream websocket connected'' st)
                  \<lparr>isSocketOpen := True, minutesWaited := 0, reconnectAttempts := 0\<rparr>"
  have "timers_ok st1"
    using assms unfolding st1_def timers_ok_def reconnects_def console_log_def
    by (auto split: option.splits)
  from timers_ok_set_interval [OF this, of PingInterval]
  have "timers_ok ((snd (setTimer PingInterval st1))\<lparr>pingTimer := Some (handles st1)\<rparr>)"
    by (simp add: setTimer_def)
  then show ?thesis
    by (simp add: handleOpen_def Let_def case_prod_beta st1_def [symmetric] timers_ok_sendSubscription
        setTimer_def)
qed

lemma timers_ok_handleClose:
  assumes "timers_ok st"
  shows "timers_ok (handleClose st)"
proof -
  define st1 where "st1 = clearInactivityTimer (st\<lparr>isSocketOpen := False\<rparr>)"
  define st2 where "st2 = (case pingTimer st1 of Some h \<Rightarrow> clearInterval h st1 | None \<Rightarrow> st1)\<lparr>pingTimer := None\<rparr>"
  have "timers_ok (st\<lparr>isSocketOpen := False\<rparr>) = timers_ok st"
    by (rule timers_ok_connection) (simp add: connection_def)
  then have "timers_ok (st\<lparr>isSocketOpen := False\<rparr>)"
    using assms by simp
  then have 1: "timers_ok st1"
    unfolding st1_def by (rule timers_ok_clearInactivityTimer)
  have 2: "timers_ok st2"
  proof (cases "pingTimer st1")
    case None
    then show ?thesis
      using 1 by (simp add: st2_def timers_ok_def reconnects_def)
  next
    case (Some h)
    then show ?thesis
      using timers_ok_clear_ping [OF 1 Some] by (simp add: st2_def)
  qed
  show ?thesis
    using 2 by (simp add: handleClose_def Let_def st1_def [symmetric] st2_def [symmetric]
        timers_ok_scheduleReconnect)
qed

lemma timers_ok_handleError: "timers_ok st \<Longrightarrow> timers_ok (handleError st)"
  by (simp add: handleError_def timers_ok_scheduleReconnect)

lemma timers_ok_connect [simp]: "timers_ok (connect st) = timers_ok st"
  by (rule timers_ok_connection) (simp add: connection_def connect_def console_log_def)

lemma timers_ok_fire:
  assumes "timers_ok st"
  shows "timers_ok (fire h st)"
proof (cases "map_of (timers st) h")
  case None
  then show ?thesis
    using assms by (simp add: fire_def)
next
  case (Some t)
  have d: "distinct (map fst (timers st))"
    using assms by (simp add: timers_ok_def)
  have m: "(h, t) \<in> set (timers st)"
    using Some by (rule map_of_SomeD)
  show ?thesis
  proof (cases t)
    case InactivityInterval
    then show ?thesis
      using assms Some
      by (simp add: fire_def inactivity_callback_def timers_ok_def reconnects_def console_log_def)
  next
    case PingInterval
    then show ?thesis
      using assms Some by (simp add: fire_def)
  next
    case (ReconnectTimeout delay)
    have r: "reconnects st = [(h, ReconnectTimeout delay)]"
    proof -
      have "(h, t) \<in> set (reconnects st)"
        using m ReconnectTimeout by (simp add: reconnects_def)
      then show ?thesis
        using assms ReconnectTimeout by (auto simp add: timers_ok_def split: option.splits)
    qed
    have k: "(h, InactivityInterval) \<notin> set (timers st)" "(h, PingInterval) \<notin> set (timers st)"
      using eq_key_imp_eq_value [OF d m] ReconnectTimeout by auto
    have e: "filter (\<lambda>x. (case x of (h', t) \<Rightarrow> h' \<noteq> h) \<and> is_reconnect x) (timers st) = []"
    proof -
      have "filter (\<lambda>x. (case x of (h', t) \<Rightarrow> h' \<noteq> h)) (filter is_reconnect (timers st)) = []"
        using r by (simp add: reconnects_def)
      then show ?thesis
        by (simp add: conj_commute)
    qed
    show ?thesis
      using assms Some ReconnectTimeout k e
      by (auto simp add: fire_def reconnect_callback_def connect_def console_log_def timers_ok_def
          reconnects_def clearInterval_def distinct_cleared)
  qed
qed

lemma resume_maintains:
  "resume t a g vs = Some t' \<Longrightarrow> maintains R t \<Longrightarrow> R g (turn_of t') \<and> maintains R t'"
  by (cases t; cases a) (auto split: option.splits)

lemma maintains_unspawn [simp]: "maintains R (unspawn t) = maintains R t"
  by (induction t) auto

lemma outcome_unspawn [simp]: "outcome (unspawn t) = outcome t"
  by (induction t) auto

lemma set_remove_nth: "set (remove_nth i xs) \<subseteq> set xs"
  unfolding remove_nth_def using set_take_subset [of i xs] set_drop_subset [of "Suc i" xs] by auto

lemma handlers_after:
  assumes "\<forall>h \<in> set hs. maintains R h" "maintains R t"
  shows "\<forall>h \<in> set (if outcome t = None then hs[i := unspawn t] else remove_nth i hs). maintains R h"
  using assms set_update_subset_insert [of hs i "unspawn t"] set_remove_nth [of i hs]
  by (auto split: if_splits)

lemma fresh_promise: "\<forall>(p, r) \<in> set xs. p < (n :: nat) \<Longrightarrow> map_of xs n = None"
  by (induction xs) auto

lemma invariant_handler_turn:
  assumes inv: "invariant w" and f: "handler_turns (glob w) (turn_of t)" "maintains handler_turns t"
  shows "invariant (handler_turn i t w)"
proof -
  have q: "quiet_turn (glob w) (state_of t)"
    using f(1) by (simp add: handler_turns_def turn_of_def)
  then have 1: "timers_ok (state_of t)"
    using inv timers_ok_connection [of "state_of t" "glob w"] by (auto simp add: quiet_turn_def invariant_def)
  have 2: "\<forall>h \<in> set (if outcome t = None then (handlers w)[i := unspawn t] else remove_nth i (handlers w)).
            maintains handler_turns h"
    using inv f(2) by (intro handlers_after) (simp_all add: invariant_def)
  have s: "\<forall>(p, r) \<in> set (settlements w). p < promises (glob w)"
    using inv by (simp add: invariant_def)
  consider "spawned t = []" "pendingCmsLogin (state_of t) = pendingCmsLogin (glob w)"
      "promises (state_of t) = promises (glob w)"
    | lt where "pendingCmsLogin (glob w) = None" "spawned t = [(promises (glob w), lt)]"
        "pendingCmsLogin (state_of t) = Some (promises (glob w))"
        "promises (state_of t) = Suc (promises (glob w))"
        "outcome lt = None" "maintains login_turns lt"
    using f(1) by (auto simp add: handler_turns_def turn_of_def)
  then show ?thesis
  proof cases
    case 1
    with inv \<open>timers_ok (state_of t)\<close> 2
    show ?thesis
      by (simp add: invariant_def handler_turn_def)
  next
    case 2
    then have "logins w = []"
      using inv by (simp add: invariant_def)
    moreover have "\<forall>(p, r) \<in> set (settlements w). p < Suc (promises (glob w))"
      using s by (auto simp add: less_Suc_eq)
    moreover have "map_of (settlements w) (promises (glob w)) = None"
      using s by (rule fresh_promise)
    ultimately show ?thesis
      using 2 inv \<open>timers_ok (state_of t)\<close>
        \<open>\<forall>h \<in> set (if outcome t = None then (handlers w)[i := unspawn t] else remove_nth i (handlers w)).
            maintains handler_turns h\<close>
      by (simp add: invariant_def handler_turn_def)
  qed
qed

lemma invariant_login_turn:
  assumes inv: "invariant w" and j: "j < length (logins w)" "logins w ! j = (p, t0)"
    and f: "login_turns (glob w) (turn_of t)" "maintains login_turns t"
  shows "invariant (login_turn j p t w)"
proof -
  obtain t1 where l: "logins w = [(p, t1)]" "pendingCmsLogin (glob w) = Some p"
    using inv j by (cases "pendingCmsLogin (glob w)") (auto simp add: invariant_def)
  then have j0: "j = 0"
    using j by simp
  have q: "quiet_turn (glob w) (state_of t)" "promises (state_of t) = promises (glob w)"
    using f(1) by (simp_all add: login_turns_def turn_of_def)
  then have 1: "timers_ok (state_of t)"
    using inv timers_ok_connection [of "state_of t" "glob w"] by (auto simp add: quiet_turn_def invariant_def)
  have k: "p < promises (glob w)" "map_of (settlements w) p = None"
    "\<forall>(p, r) \<in> set (settlements w). p < promises (glob w)"
    using inv l by (simp_all add: invariant_def)
  show ?thesis
  proof (cases "outcome t")
    case None
    then have "pendingCmsLogin (state_of t) = Some p"
      using f(1) l by (simp add: login_turns_def turn_of_def)
    then show ?thesis
      using None inv 1 l j0 f(2) q(2) k by (simp add: invariant_def login_turn_def)
  next
    case (Some r)
    then have "pendingCmsLogin (state_of t) = None"
      using f(1) by (simp add: login_turns_def turn_of_def)
    then show ?thesis
      using Some inv 1 l j0 q(2) k by (simp add: invariant_def login_turn_def remove_nth_def)
  qed
qed

lemma connection_steps_other:
  "pendingCmsLogin (handleOpen cfg ready st) = pendingCmsLogin st"
  "pendingCmsLogin (handleClose st) = pendingCmsLogin st"
  "pendingCmsLogin (handleError st) = pendingCmsLogin st"
  "pendingCmsLogin (fire h st) = pendingCmsLogin st"
  "promises (handleOpen cfg ready st) = promises st"
  "promises (handleClose st) = promises st"
  "promises (handleError st) = promises st"
  "promises (fire h st) = promises st"
  by (simp_all add: handleOpen_def handleClose_def handleError_def fire_def sendSubscription_def
      startInactivityTimer_def clearInactivityTimer_def scheduleReconnect_def reconnect_callback_def
      inactivity_callback_def connect_def setTimer_def clearInterval_def console_log_def
      Let_def case_prod_beta split: option.splits timer.splits)

lemma invariant_step: "invariant w \<Longrightarrow> invariant (step cfg rt a w)"
proof (cases a)
  case (Opens ready)
  assume "invariant w"
  then show ?thesis
    using Opens by (simp add: invariant_def timers_ok_handleOpen connection_steps_other)
next
  case Closes
  assume "invariant w"
  then show ?thesis
    using Closes by (simp add: invariant_def timers_ok_handleClose connection_steps_other)
next
  case Errors
  assume "invariant w"
  then show ?thesis
    using Errors by (simp add: invariant_def timers_ok_handleError connection_steps_other)
next
  case (Fires h)
  assume "invariant w"
  then show ?thesis
    using Fires by (simp add: invariant_def timers_ok_fire connection_steps_other)
next
  case (Passes now)
  assume "invariant w"
  moreover have "timers_ok ((glob w)\<lparr>clock := now\<rparr>) = timers_ok (glob w)"
    by (rule timers_ok_connection) (simp add: connection_def)
  ultimately show ?thesis
    using Passes by (simp add: invariant_def)
next
  case (Arrives data)
  assume inv: "invariant w"
  define t where "t = handleMessage cfg rt data (glob w)"
  define w' where "w' = w\<lparr>handlers := handlers w @ [t]\<rparr>"
  have "invariant w'"
    using inv fine_handleMessage [of cfg rt data "glob w"]
    by (simp add: invariant_def w'_def t_def fine_def)
  moreover have "handler_turns (glob w') (turn_of t)" "maintains handler_turns t"
    using fine_handleMessage [of cfg rt data "glob w"] by (simp_all add: fine_def t_def w'_def)
  ultimately have "invariant (handler_turn (length (handlers w)) t w')"
    by (rule invariant_handler_turn)
  then show ?thesis
    using Arrives by (simp add: t_def w'_def Let_def)
next
  case (HandlerGoesOn i b)
  assume inv: "invariant w"
  show ?thesis
  proof (cases "i < length (handlers w)")
    case False
    then show ?thesis
      using inv HandlerGoesOn by simp
  next
    case True
    show ?thesis
    proof (cases "resume (handlers w ! i) b (glob w) (map_of (settlements w))")
      case None
      then show ?thesis
        using inv HandlerGoesOn True by simp
    next
      case (Some t)
      have "maintains handler_turns (handlers w ! i)"
        using inv True by (simp add: invariant_def)
      from resume_maintains [OF Some this]
      have "invariant (handler_turn i t w)"
        using inv by (intro invariant_handler_turn) simp_all
      then show ?thesis
        using HandlerGoesOn True Some by simp
    qed
  qed
next
  case (LoginGoesOn j b)
  assume inv: "invariant w"
  show ?thesis
  proof (cases "j < length (logins w)")
    case False
    then show ?thesis
      using inv LoginGoesOn by simp
  next
    case True
    show ?thesis
    proof (cases "resume (snd (logins w ! j)) b (glob w) (map_of (settlements w))")
      case None
      then show ?thesis
        using inv LoginGoesOn True by simp
    next
      case (Some t)
      have "logins w ! j \<in> set (logins w)"
        using True by simp
      then have "maintains login_turns (snd (logins w ! j))"
        using inv by (auto simp add: invariant_def)
      from resume_maintains [OF Some this]
      have "invariant (login_turn j (fst (logins w ! j)) t w)"
        using inv True by (intro invariant_login_turn [where ?t0.0 = "snd (logins w ! j)"]) simp_all
      then show ?thesis
        using LoginGoesOn True Some by simp
    qed
  qed
qed

lemma invariant_started: "invariant (started now)"
  by (simp add: invariant_def started_def loaded_def connect_def console_log_def timers_ok_def
      reconnects_def)

lemma reachable_invariant: "reachable cfg rt w \<Longrightarrow> invariant w"
  by (induction rule: reachable.induct) (simp_all add: invariant_started invariant_step)

section \<open>Runs of the duplicate check and of the persistence path\<close>

lemma run_shouldPersist:
  assumes "cmsCollectionUrl cfg \<noteq> None" "truthy (cmsAuthToken st)"
  shows "run (shouldPersistPositionReport cfg rt pr st) env n =
    (let Q = query_run cfg rt st env n;
         m = n + suspensions (trace Q);
         s1 = interference (env m) (final Q);
         s2 = interference (env (Suc m)) s1
     in after (trace Q @ [Turn (final Q)])
       (case result Q of
          Rejected e \<Rightarrow> (Fulfilled True, console_log ''Failed to query recent AIS logs'' s1, [])
        | Fulfilled response \<Rightarrow>
            if \<not> ok response
            then (case text_read (env (Suc m)) of
                    Rejected e \<Rightarrow> (Rejected e, s2, [ReadText response (Rejected e) s1])
                  | Fulfilled body \<Rightarrow>
                      (Fulfilled True, console_log ''Payload REST query failed'' s2,
                       [ReadText response (Fulfilled body) s1]))
            else (case json_read (env (Suc m)) of
                    Rejected e \<Rightarrow>
                      (Fulfilled True, console_log ''Failed to parse Payload REST query response'' s2,
                       [ReadJson response (Rejected e) s1])
                  | Fulfilled payload \<Rightarrow>
                      (Fulfilled (decision rt pr (clock st) payload),
                       (if hasRecentLog rt (clock st - 6 * 60 * 60 * 1000) (docs_of payload)
                        then console_log ''Skipping AIS log: entry exists within last 6 hours'' s2
                        else if hasSameLocation rt pr (docs_of payload)
                        then console_log ''Skipping AIS log: identical location already stored within last 12 hours'' s2
                        else s2),
                       [ReadJson response (Fulfilled payload) s1]))))"
  using assms
  unfolding shouldPersistPositionReport_def query_run_def
  by (simp add: run_await Let_def or_throw_def after_def trace_def result_def final_def decision_def
      split: settled.splits prod.splits)

lemma reads_no_body_bind:
  "reads_no_body t \<Longrightarrow> (\<And>r s. reads_no_body (f r s)) \<Longrightarrow> reads_no_body (bind t f)"
  by (induction t) auto

lemma reads_no_body_await:
  "reads_no_body t \<Longrightarrow> (\<And>r s. reads_no_body (f r s)) \<Longrightarrow> reads_no_body (await t f)"
  by (simp add: await_def reads_no_body_bind)

lemma reads_no_body_ensure: "reads_no_body (ensureCmsSession cfg rt st)"
  by (simp add: ensureCmsSession_def Let_def split: option.splits)

lemma reads_no_body_request: "reads_no_body (performAuthorizedRequest cfg rt rf st)"
  by (auto simp add: performAuthorizedRequest_def Let_def or_throw_def reads_no_body_ensure
      intro!: reads_no_body_await split: settled.splits)

lemma reads_no_body_run: "reads_no_body t \<Longrightarrow> \<not> list_ex body_read (trace (run t env n))"
proof (induction t arbitrary: n)
  case (AwaitFetch rq s k)
  from AwaitFetch.prems AwaitFetch.IH [OF rangeI rangeI] show ?case
    by (simp add: trace_def case_prod_beta)
next
  case (AwaitPromise p s k)
  from AwaitPromise.prems AwaitPromise.IH [OF rangeI rangeI] show ?case
    by (simp add: trace_def case_prod_beta)
next
  case (Tick s k)
  from Tick.prems Tick.IH [OF rangeI] show ?case
    by (simp add: trace_def case_prod_beta)
qed (simp_all add: trace_def case_prod_beta)

lemma query_reads_no_body: "e \<in> set (trace (query_run cfg rt st env n)) \<Longrightarrow> \<not> body_read e"
  using reads_no_body_run [OF reads_no_body_request, of cfg rt _ st env n]
  unfolding query_run_def by (auto simp add: list_ex_iff)

text \<open>The query is a GET, issued first in the state in which the check began.\<close>

lemma query_calls:
  "(rq, a) \<in> set (calls (trace (query_run cfg rt st env n))) \<Longrightarrow> http_method rq = ''GET''"
proof -
  have c: "(rq, a) \<in> set (calls tr) \<Longrightarrow> \<exists>s. Fetched rq a s \<in> set tr" for tr
    by (induction tr rule: calls.induct) auto
  assume "(rq, a) \<in> set (calls (trace (query_run cfg rt st env n)))"
  then obtain s where "Fetched rq a s \<in> set (trace (query_run cfg rt st env n))"
    using c by blast
  then have "rq = fetchRecentLogs cfg rt (toISOString rt (clock st - 12 * 60 * 60 * 1000)) s"
    using run_performAuthorizedRequest [of "fetchRecentLogs cfg rt (toISOString rt (clock st - 12 * 60 * 60 * 1000))" cfg rt st env n]
    unfolding query_run_def request_summary_def Let_def by blast
  then show ?thesis
    by (simp add: fetchRecentLogs_def)
qed

lemma query_first_fetch:
  "truthy (cmsAuthToken st) \<Longrightarrow> first_fetch (trace (query_run cfg rt st env n) @ tr) = Some st"
  by (simp add: query_run_def performAuthorizedRequest_def Let_def trace_def case_prod_beta)

lemma run_persist:
  assumes "cmsCollectionUrl cfg \<noteq> None" "cmsLoginUrl cfg \<noteq> None"
    "is_set (CMS_EMAIL cfg)" "is_set (CMS_PASSWORD cfg)"
  shows "run (persistPositionReport cfg rt pr st) env n =
    (let E = run (ensureCmsSession cfg rt st) env n;
         m1 = n + suspensions (trace E);
         g1 = interference (env m1) (final E)
     in after (trace E @ [Turn (final E)])
          (case result E of
             Rejected e \<Rightarrow>
               (Fulfilled (), console_log ''Failed to authenticate with Payload REST API'' g1, [])
           | Fulfilled v \<Rightarrow>
               if \<not> truthy (cmsAuthToken g1)
               then (Fulfilled (),
                     console_log ''Skipping Payload persistence; missing auth token'' g1, [])
               else checked_run cfg rt pr g1 env (Suc m1)))"
  using assms
  unfolding persistPositionReport_def checked_run_def write_run_def
  by (simp add: run_await Let_def after_def trace_def result_def final_def
      split: settled.splits prod.splits)

lemma trace_after [simp]: "trace (after pre R) = pre @ trace R"
  by (simp add: trace_def after_def)

lemma result_after [simp]: "result (after pre R) = result R"
  by (simp add: result_def after_def)

lemma final_after [simp]: "final (after pre R) = final R"
  by (simp add: final_def after_def)

lemma trace_triple [simp]: "trace (r, s, tr) = tr"
  by (simp add: trace_def)

lemma result_triple [simp]: "result (r, s, tr) = r"
  by (simp add: result_def)

lemma final_triple [simp]: "final (r, s, tr) = s"
  by (simp add: final_def)

lemma first_fetch_append:
  "calls pre = [] \<Longrightarrow> first_fetch (pre @ tr) = first_fetch tr"
  by (induction pre rule: calls.induct) auto

lemma recency_rule:
  assumes R: "R = run (shouldPersistPositionReport cfg rt pr st) env n"
    and j: "ReadJson response (Fulfilled payload) s \<in> set (trace R)"
    and d: "doc \<in> set (docs_of payload)" "truthy (get doc ''createdAt'')"
       "number_ge (getTime rt (get doc ''createdAt'')) (Finite (of_int (clock st - 6 * 60 * 60 * 1000)))"
  shows "result R = Fulfilled False"
proof -
  have c: "cmsCollectionUrl cfg \<noteq> None" "truthy (cmsAuthToken st)"
    using j unfolding R by (auto simp add: shouldPersistPositionReport_def trace_def split: if_splits)
  have recent: "hasRecentLog rt (clock st - 6 * 60 * 60 * 1000) (docs_of payload)"
    using d by (auto simp add: hasRecentLog_def list_ex_iff)
  have "ReadJson response (Fulfilled payload) s \<notin> set (trace (query_run cfg rt st env n))"
    using query_reads_no_body [of "ReadJson response (Fulfilled payload) s" cfg rt st env n] by auto
  with j recent show ?thesis
    unfolding R run_shouldPersist [OF c] Let_def
    by (auto simp add: decision_def split: settled.splits if_splits)
qed

lemma write_reads_no_json:
  "ReadJson response a s \<notin> set (trace (write_run cfg rt pr g env m))"
proof -
  have "ReadJson response a s \<notin> set (trace (run (performAuthorizedRequest cfg rt (postAisLog cfg rt pr) g) env m))"
    using reads_no_body_run [OF reads_no_body_request, of cfg rt "postAisLog cfg rt pr" g env m]
    by (auto simp add: list_ex_iff)
  then show ?thesis
    by (auto simp add: write_run_def Let_def split: settled.splits)
qed

lemma shouldPersist_calls:
  assumes "cmsCollectionUrl cfg \<noteq> None" "truthy (cmsAuthToken g)"
  shows "calls (trace (run (shouldPersistPositionReport cfg rt pr g) env m))
         = calls (trace (query_run cfg rt g env m))"
    and "first_fetch (trace (run (shouldPersistPositionReport cfg rt pr g) env m) @ tr) = Some g"
  unfolding run_shouldPersist [OF assms] Let_def
  using query_first_fetch [OF assms(2), of cfg rt env m]
  by (auto simp add: calls_append split: settled.splits)

lemma checked_run_recent:
  assumes c: "cmsCollectionUrl cfg \<noteq> None" "truthy (cmsAuthToken g)"
    and j: "ReadJson response (Fulfilled payload) s \<in> set (trace (checked_run cfg rt pr g env m))"
    and d: "doc \<in> set (docs_of payload)" "truthy (get doc ''createdAt'')"
       "number_ge (getTime rt (get doc ''createdAt'')) (Finite (of_int (clock g - 6 * 60 * 60 * 1000)))"
  shows "\<forall>(rq, a) \<in> set (calls (trace (checked_run cfg rt pr g env m))). http_method rq = ''GET''"
proof -
  define S where "S = run (shouldPersistPositionReport cfg rt pr g) env m"
  have "ReadJson response (Fulfilled payload) s \<in> set (trace S)"
    using j write_reads_no_json [of response "Fulfilled payload" s cfg rt pr]
    unfolding checked_run_def S_def [symmetric] Let_def
    by (auto split: settled.splits if_splits)
  from recency_rule [OF S_def this d] have "result S = Fulfilled False" .
  then have "calls (trace (checked_run cfg rt pr g env m)) = calls (trace S)"
    unfolding checked_run_def S_def [symmetric] Let_def by (simp add: calls_append)
  then show ?thesis
    using query_calls [of _ _ cfg rt g env m] shouldPersist_calls(1) [OF c, of rt pr env m]
    by (auto simp add: S_def)
qed

text \<open>The definitions that the examples unfold.\<close>

lemmas example_defs = shouldPersistPositionReport_def persistPositionReport_def
  performAuthorizedRequest_def ensureCmsSession_def await_def or_throw_def Let_def script_def
  responded_def parsed_def quiet_def authed_def loaded_def connect_def console_log_def cfg0_def
  rt0_def cmsLoginUrl_def cmsCollectionUrl_def is_set_def history_def entry_def elsewhere_def
  report_def docs_of_def hasRecentLog_def hasSameLocation_def strict_eq_def ok_def
  fetchRecentLogs_def postAisLog_def mmsi_def

section \<open>Malformed messages\<close>

lemma handleMessage_result: "result (run (handleMessage cfg rt data st) env n) = Fulfilled ()"
proof (cases data)
  case None
  then show ?thesis
    by (simp add: handleMessage_def)
next
  case (Some aisMessage)
  then show ?thesis
    by (simp add: handleMessage_def Let_def run_await split: settled.splits)
qed

text \<open>
  C8, as stated, fails twice. A message that parses but has no position report resets
  the inactivity counter: after one firing of the inactivity interval the counter is 60,
  and the message \<^verbatim>\<open>{"foo":"bar"}\<close> sets it back to 0. And a message whose
  \<^verbatim>\<open>Message.PositionReport\<close> is truthy without being a position report (here the number 5)
  is handed to the persistence path: with a token cached and no entry in the store, the
  query and the write are both issued, the write with a location of two \<^verbatim>\<open>undefined\<close>.
\<close>

theorem C8_counterexample:
  "minutesWaited (state_of (handleMessage cfg0 rt0 (Some (JObj [(''foo'', JStr ''bar'')]))
       (inactivity_callback (loaded 0))))
   \<noteq> minutesWaited (inactivity_callback (loaded 0))
   \<and> map (\<lambda>(rq, a). (http_method rq, get (json_body rq) ''location''))
        (calls (trace (run (handleMessage cfg0 rt0 (Some misshapen) (authed 0))
           (script [quiet, responded 200, quiet, parsed (JObj [(''docs'', JArr [])]), quiet,
                    responded 201]) 0)))
     = [(''GET'', JUndefined), (''POST'', JArr [JUndefined, JUndefined])]"
  by (simp add: handleMessage_def inactivity_callback_def misshapen_def example_defs trace_def)

text \<open>
  C8, amended. The handler never throws, whatever the message and whatever happens
  while it is suspended. A message that does not parse as JSON leaves the module state as
  it is, but for the console line. A message that parses resets the inactivity counter
  to zero. If it has no truthy \<^verbatim>\<open>Message.PositionReport\<close>, nothing else changes, but for
  the console lines, and the handler returns in the same turn without having called
  \<^verbatim>\<open>persistPositionReport\<close>. If \<^verbatim>\<open>Message.PositionReport\<close> is truthy, whatever its shape, the
  handler calls \<^verbatim>\<open>persistPositionReport\<close> with it and awaits that call.
\<close>

theorem C8_malformed_message:
  "result (run (handleMessage cfg rt data st) env n) = Fulfilled ()
   \<and> (data = None \<longrightarrow>
        handleMessage cfg rt data st = Return (Fulfilled ()) (console_log ''SyntaxError'' st))
   \<and> (data = Some aisMessage \<and> \<not> truthy (get (get aisMessage ''Message'') ''PositionReport'') \<longrightarrow>
        handleMessage cfg rt data st
          = Return (Fulfilled ())
              (console_log ''Unexpected AIS report shape''
                 (console_log (inspect rt aisMessage)
                    (console_log ''AIS Message'' (st\<lparr>minutesWaited := 0\<rparr>)))))
   \<and> (data = Some aisMessage \<and> truthy (get (get aisMessage ''Message'') ''PositionReport'') \<longrightarrow>
        handleMessage cfg rt data st
          = await (persistPositionReport cfg rt (get (get aisMessage ''Message'') ''PositionReport'')
                     (console_log (inspect rt aisMessage)
                        (console_log ''AIS Message'' (st\<lparr>minutesWaited := 0\<rparr>))))
              (\<lambda>r s. case r of
                 Rejected e \<Rightarrow> Return (Fulfilled ()) (console_log ''Error'' s)
               | Fulfilled v \<Rightarrow> Return (Fulfilled ()) s))"
  using handleMessage_result [of cfg rt data st env n]
  by (simp add: handleMessage_def Let_def)

theorem C8_malformed_message_witness:
  "\<not> truthy (get (get (JObj [(''foo'', JStr ''bar'')]) ''Message'') ''PositionReport'')
   \<and> handleMessage cfg0 rt0 (Some (JObj [(''foo'', JStr ''bar'')])) (loaded 0)
        = Return (Fulfilled ())
            (console_log ''Unexpected AIS report shape''
               (console_log ''[value]''
                  (console_log ''AIS Message'' ((loaded 0)\<lparr>minutesWaited := 0\<rparr>))))
   \<and> handleMessage cfg0 rt0 None (loaded 0)
        = Return (Fulfilled ()) (console_log ''SyntaxError'' (loaded 0))
   \<and> truthy (get (get misshapen ''Message'') ''PositionReport'')
   \<and> handleMessage cfg0 rt0 (Some misshapen) (loaded 0)
        = await (persistPositionReport cfg0 rt0 (JNum (Finite 5))
                   (console_log ''[value]''
                      (console_log ''AIS Message'' ((loaded 0)\<lparr>minutesWaited := 0\<rparr>))))
            (\<lambda>r s. case r of
               Rejected e \<Rightarrow> Return (Fulfilled ()) (console_log ''Error'' s)
             | Fulfilled v \<Rightarrow> Return (Fulfilled ()) s)
   \<and> result (run (handleMessage cfg0 rt0 (Some misshapen) (loaded 0)) (script []) 0) = Fulfilled ()"
proof -
  have i: "inspect rt0 (JObj [(''foo'', JStr ''bar'')]) = ''[value]''" "inspect rt0 misshapen = ''[value]''"
    by (simp_all add: rt0_def misshapen_def)
  have p: "get (get misshapen ''Message'') ''PositionReport'' = JNum (Finite 5)"
    by (simp add: misshapen_def)
  have 1: "\<not> truthy (get (get (JObj [(''foo'', JStr ''bar'')]) ''Message'') ''PositionReport'')"
    by simp
  have 2: "handleMessage cfg0 rt0 (Some (JObj [(''foo'', JStr ''bar'')])) (loaded 0)
        = Return (Fulfilled ())
            (console_log ''Unexpected AIS report shape''
               (console_log ''[value]''
                  (console_log ''AIS Message'' ((loaded 0)\<lparr>minutesWaited := 0\<rparr>))))"
    using C8_malformed_message [of cfg0 rt0 "Some (JObj [(''foo'', JStr ''bar'')])" "loaded 0" "script []" 0
        "JObj [(''foo'', JStr ''bar'')]"] 1
    by (simp add: i)
  have 3: "handleMessage cfg0 rt0 None (loaded 0)
        = Return (Fulfilled ()) (console_log ''SyntaxError'' (loaded 0))"
    using C8_malformed_message [of cfg0 rt0 None "loaded 0" "script []" 0] by simp
  have 4: "truthy (get (get misshapen ''Message'') ''PositionReport'')"
    by (simp add: p)
  note m = C8_malformed_message [of cfg0 rt0 "Some misshapen" "loaded 0" "script []" 0 misshapen]
  have 5: "handleMessage cfg0 rt0 (Some misshapen) (loaded 0)
        = await (persistPositionReport cfg0 rt0 (JNum (Finite 5))
                   (console_log ''[value]''
                      (console_log ''AIS Message'' ((loaded 0)\<lparr>minutesWaited := 0\<rparr>))))
            (\<lambda>r s. case r of
               Rejected e \<Rightarrow> Return (Fulfilled ()) (console_log ''Error'' s)
             | Fulfilled v \<Rightarrow> Return (Fulfilled ()) s)"
    using m 4 by (simp add: i p)
  have 6: "result (run (handleMessage cfg0 rt0 (Some misshapen) (loaded 0)) (script []) 0) = Fulfilled ()"
    using m by (rule conjunct1)
  show ?thesis
    using 1 2 3 4 5 6 by (intro conjI)
qed

section \<open>The duplicate check always has a token\<close>

text \<open>
  C9. \<^verbatim>\<open>persistPositionReport\<close> is the only caller of \<^verbatim>\<open>shouldPersistPositionReport\<close>. With
  the store and the credentials configured, every run of it, whatever the environment
  answers and does, is the run of \<^verbatim>\<open>ensureCmsSession\<close>, then one turn, then, in the module
  state \<open>g\<close> of that moment: the end of the call if the session could not be ensured or
  no token is cached in \<open>g\<close>, and otherwise the run of the duplicate check begun in this
  very state \<open>g\<close>, in which the token is cached. Without the configuration the
  function returns at once. So the duplicate check begins with a token cached: it goes
  on to its query, issued in the state in which it began, and does not take the branch
  that allows the report for want of a token, which is the branch that a call without a
  token would take.
\<close>

theorem C9_check_never_skipped:
  "(cmsCollectionUrl cfg \<noteq> None \<and> cmsLoginUrl cfg \<noteq> None
      \<and> is_set (CMS_EMAIL cfg) \<and> is_set (CMS_PASSWORD cfg) \<longrightarrow>
      run (persistPositionReport cfg rt pr st) env n =
        (let E = run (ensureCmsSession cfg rt st) env n;
             m = n + suspensions (trace E);
             g = interference (env m) (final E)
         in after (trace E @ [Turn (final E)])
              (case result E of
                 Rejected e \<Rightarrow>
                   (Fulfilled (), console_log ''Failed to authenticate with Payload REST API'' g, [])
               | Fulfilled v \<Rightarrow>
                   if \<not> truthy (cmsAuthToken g)
                   then (Fulfilled (),
                         console_log ''Skipping Payload persistence; missing auth token'' g, [])
                   else
                     (let S = run (shouldPersistPositionReport cfg rt pr g) env (Suc m);
                          m2 = Suc m + suspensions (trace S);
                          g2 = interference (env m2) (final S)
                      in after (trace S @ [Turn (final S)])
                           (case result S of
                              Rejected e \<Rightarrow>
                                (Fulfilled (),
                                 console_log ''Failed to evaluate AIS log duplication rules'' g2, [])
                            | Fulfilled shouldPersist \<Rightarrow>
                                if \<not> shouldPersist then (Fulfilled (), g2, [])
                                else write_run cfg rt pr g2 env (Suc m2))))))
   \<and> (cmsCollectionUrl cfg = None \<or> cmsLoginUrl cfg = None \<longrightarrow>
        persistPositionReport cfg rt pr st = Return (Fulfilled ()) (warnMissingCmsHost st))
   \<and> (cmsCollectionUrl cfg \<noteq> None \<and> cmsLoginUrl cfg \<noteq> None
        \<and> (\<not> is_set (CMS_EMAIL cfg) \<or> \<not> is_set (CMS_PASSWORD cfg)) \<longrightarrow>
        persistPositionReport cfg rt pr st = Return (Fulfilled ()) (warnMissingCmsCreds st))
   \<and> (cmsCollectionUrl cfg \<noteq> None \<and> truthy (cmsAuthToken st') \<longrightarrow>
        (\<exists>k. shouldPersistPositionReport cfg rt pr st' =
               AwaitFetch (fetchRecentLogs cfg rt (toISOString rt (clock st' - 12 * 60 * 60 * 1000)) st')
                 st' k))
   \<and> (cmsCollectionUrl cfg \<noteq> None \<and> \<not> truthy (cmsAuthToken st') \<longrightarrow>
        shouldPersistPositionReport cfg rt pr st'
          = Return (Fulfilled True)
              (console_log ''Skipping duplicate check; missing auth token'' st'))"
proof -
  have "run (persistPositionReport cfg rt pr st) env n =
        (let E = run (ensureCmsSession cfg rt st) env n;
             m = n + suspensions (trace E);
             g = interference (env m) (final E)
         in after (trace E @ [Turn (final E)])
              (case result E of
                 Rejected e \<Rightarrow>
                   (Fulfilled (), console_log ''Failed to authenticate with Payload REST API'' g, [])
               | Fulfilled v \<Rightarrow>
                   if \<not> truthy (cmsAuthToken g)
                   then (Fulfilled (),
                         console_log ''Skipping Payload persistence; missing auth token'' g, [])
                   else
                     (let S = run (shouldPersistPositionReport cfg rt pr g) env (Suc m);
                          m2 = Suc m + suspensions (trace S);
                          g2 = interference (env m2) (final S)
                      in after (trace S @ [Turn (final S)])
                           (case result S of
                              Rejected e \<Rightarrow>
                                (Fulfilled (),
                                 console_log ''Failed to evaluate AIS log duplication rules'' g2, [])
                            | Fulfilled shouldPersist \<Rightarrow>
                                if \<not> shouldPersist then (Fulfilled (), g2, [])
                                else write_run cfg rt pr g2 env (Suc m2)))))"
    if "cmsCollectionUrl cfg \<noteq> None" "cmsLoginUrl cfg \<noteq> None"
      "is_set (CMS_EMAIL cfg)" "is_set (CMS_PASSWORD cfg)"
    using run_persist [OF that, of rt pr st env n] unfolding checked_run_def .
  moreover have "\<exists>k. shouldPersistPositionReport cfg rt pr st' =
               AwaitFetch (fetchRecentLogs cfg rt (toISOString rt (clock st' - 12 * 60 * 60 * 1000)) st')
                 st' k"
    if "cmsCollectionUrl cfg \<noteq> None" "truthy (cmsAuthToken st')"
    using that
    by (simp add: shouldPersistPositionReport_def performAuthorizedRequest_def await_def Let_def)
  moreover have "shouldPersistPositionReport cfg rt pr st'
          = Return (Fulfilled True)
              (console_log ''Skipping duplicate check; missing auth token'' st')"
    if "cmsCollectionUrl cfg \<noteq> None" "\<not> truthy (cmsAuthToken st')"
    using that by (simp add: shouldPersistPositionReport_def)
  moreover have "persistPositionReport cfg rt pr st = Return (Fulfilled ()) (warnMissingCmsHost st)"
    if "cmsCollectionUrl cfg = None \<or> cmsLoginUrl cfg = None"
    using that by (auto simp add: persistPositionReport_def)
  moreover have "persistPositionReport cfg rt pr st = Return (Fulfilled ()) (warnMissingCmsCreds st)"
    if "cmsCollectionUrl cfg \<noteq> None \<and> cmsLoginUrl cfg \<noteq> None
        \<and> (\<not> is_set (CMS_EMAIL cfg) \<or> \<not> is_set (CMS_PASSWORD cfg))"
    using that by (auto simp add: persistPositionReport_def)
  ultimately show ?thesis
    by blast
qed

text \<open>
  A report arrives with no token cached: the login that \<^verbatim>\<open>ensureCmsSession\<close> starts and
  awaits puts a token in place, the duplicate check begins with that token, and its
  query carries it.
\<close>

theorem C9_check_never_skipped_witness:
  "cmsCollectionUrl cfg0 \<noteq> None \<and> cmsLoginUrl cfg0 \<noteq> None
   \<and> is_set (CMS_EMAIL cfg0) \<and> is_set (CMS_PASSWORD cfg0)
   \<and> \<not> truthy (cmsAuthToken (loaded 0))
   \<and> trace (run (ensureCmsSession cfg0 rt0 (loaded 0))
               (script [logged_in, quiet, responded 200, quiet, parsed (history elsewhere)]) 0)
        = [Spawned 0, Awaited 0 (Fulfilled (JStr ''fresh'')) login_pending]
   \<and> truthy (cmsAuthToken renewed)
   \<and> trace (run (persistPositionReport cfg0 rt0 report (loaded 0))
               (script [logged_in, quiet, responded 200, quiet, parsed (history elsewhere)]) 0)
        = [Spawned 0, Awaited 0 (Fulfilled (JStr ''fresh'')) login_pending, Turn renewed]
          @ trace (run (shouldPersistPositionReport cfg0 rt0 report renewed)
                     (script [logged_in, quiet, responded 200, quiet, parsed (history elsewhere)]) 2)
          @ [Turn (console_log ''Skipping AIS log: entry exists within last 6 hours'' renewed)]
   \<and> map (\<lambda>(rq, a). (http_method rq, headers rq))
        (calls (trace (run (persistPositionReport cfg0 rt0 report (loaded 0))
                         (script [logged_in, quiet, responded 200, quiet, parsed (history elsewhere)]) 0)))
        = [(''GET'', [(''Authorization'', ''Bearer fresh'')])]"
proof -
  have c: "cmsCollectionUrl cfg0 \<noteq> None" "cmsLoginUrl cfg0 \<noteq> None"
    "is_set (CMS_EMAIL cfg0)" "is_set (CMS_PASSWORD cfg0)"
    by (simp_all add: cfg0_def cmsCollectionUrl_def cmsLoginUrl_def is_set_def)
  have E: "run (ensureCmsSession cfg0 rt0 (loaded 0))
             (script [logged_in, quiet, responded 200, quiet, parsed (history elsewhere)]) 0
        = (Fulfilled (JStr ''fresh''), renewed,
           [Spawned 0, Awaited 0 (Fulfilled (JStr ''fresh'')) login_pending])"
    by (simp add: ensureCmsSession_def pending_login_def login_attempt_def loginToCms_def await_def
        Let_def script_def logged_in_def quiet_def login_pending_def renewed_def loaded_def
        connect_def console_log_def cfg0_def cmsLoginUrl_def is_set_def)
  have S: "run (shouldPersistPositionReport cfg0 rt0 report renewed)
             (script [logged_in, quiet, responded 200, quiet, parsed (history elsewhere)]) (Suc (Suc 0))
        = (Fulfilled False,
           console_log ''Skipping AIS log: entry exists within last 6 hours'' renewed,
           [Fetched (fetchRecentLogs cfg0 rt0 ''iso'' renewed)
              (Fulfilled \<lparr>status = 200, statusText = []\<rparr>) renewed,
            Turn renewed,
            ReadJson \<lparr>status = 200, statusText = []\<rparr> (Fulfilled (history elsewhere)) renewed])"
    by (simp add: example_defs login_pending_def renewed_def)
  have t: "truthy (cmsAuthToken renewed)" "\<not> truthy (cmsAuthToken (loaded 0))"
    by (simp_all add: renewed_def login_pending_def loaded_def connect_def console_log_def)
  have q: "interference (script [logged_in, quiet, responded 200, quiet, parsed (history elsewhere)] (Suc n)) s = s"
    for n s
    by (simp add: script_def quiet_def responded_def parsed_def nth_Cons split: nat.splits)
  have f: "http_method (fetchRecentLogs cfg0 rt0 ''iso'' renewed) = ''GET''"
    "headers (fetchRecentLogs cfg0 rt0 ''iso'' renewed) = [(''Authorization'', ''Bearer fresh'')]"
    by (simp_all add: fetchRecentLogs_def renewed_def)
  show ?thesis
    using C9_check_never_skipped [of cfg0 rt0 report "loaded 0"
        "script [logged_in, quiet, responded 200, quiet, parsed (history elsewhere)]" 0]
      c t
    by (simp add: E S q f Let_def numeral_2_eq_2)
qed

section \<open>The reconnect timer\<close>

lemma scheduleReconnect_attempts [simp]:
  "reconnectAttempts (scheduleReconnect st) = reconnectAttempts st"
  by (simp add: scheduleReconnect_def setTimer_def console_log_def Let_def)

lemma attempts_simps [simp]:
  "reconnectAttempts (console_log line st) = reconnectAttempts st"
  "reconnectAttempts (clearInterval h st) = reconnectAttempts st"
  "reconnectAttempts (snd (setTimer t st)) = reconnectAttempts st"
  "reconnectAttempts (clearInactivityTimer st) = reconnectAttempts st"
  "reconnectAttempts (startInactivityTimer st) = reconnectAttempts st"
  by (simp_all add: console_log_def clearInterval_def setTimer_def clearInactivityTimer_def
      startInactivityTimer_def case_prod_beta split: option.splits)

lemma handler_attempts:
  "reconnectAttempts (handleClose st) = reconnectAttempts st"
  "reconnectAttempts (handleError st) = reconnectAttempts st"
  "reconnectAttempts (handleOpen cfg ready st) = 0"
proof -
  show "reconnectAttempts (handleClose st) = reconnectAttempts st"
    unfolding handleClose_def Let_def by (simp split: option.splits)
  show "reconnectAttempts (handleError st) = reconnectAttempts st"
    unfolding handleError_def by simp
  show "reconnectAttempts (handleOpen cfg ready st) = 0"
    unfolding handleOpen_def sendSubscription_def Let_def case_prod_beta by simp
qed

lemma fire_attempts:
  assumes "timers_ok st"
  shows "reconnectAttempts (fire h st) =
     (if \<exists>d. (h, ReconnectTimeout d) \<in> set (timers st) then reconnectAttempts st + 1
      else reconnectAttempts st)"
proof -
  have d: "distinct (map fst (timers st))"
    using assms by (simp add: timers_ok_def)
  show ?thesis
  proof (cases "map_of (timers st) h")
    case None
    have "(h, ReconnectTimeout d) \<notin> set (timers st)" for d
    proof
      assume "(h, ReconnectTimeout d) \<in> set (timers st)"
      then have "map_of (timers st) h = Some (ReconnectTimeout d)"
        using d by simp
      then show False
        using None by simp
    qed
    then show ?thesis
      using None by (simp add: fire_def)
  next
    case (Some t)
    then have m: "(h, t) \<in> set (timers st)"
      by (rule map_of_SomeD)
    have u: "(h, t') \<in> set (timers st) \<Longrightarrow> t' = t" for t'
      using eq_key_imp_eq_value [OF d m] by simp
    show ?thesis
    proof (cases t)
      case (ReconnectTimeout delay)
      then show ?thesis
        using Some m by (auto simp add: fire_def reconnect_callback_def connect_def)
    next
      case InactivityInterval
      then have "(h, ReconnectTimeout d) \<notin> set (timers st)" for d
        using u [of "ReconnectTimeout d"] by auto
      then show ?thesis
        using Some InactivityInterval by (simp add: fire_def inactivity_callback_def)
    next
      case PingInterval
      then have "(h, ReconnectTimeout d) \<notin> set (timers st)" for d
        using u [of "ReconnectTimeout d"] by auto
      then show ?thesis
        using Some PingInterval by (simp add: fire_def)
    qed
  qed
qed

lemma turn_attempts:
  "handler_turns g (turn_of t) \<Longrightarrow> reconnectAttempts (state_of t) = reconnectAttempts g"
  "login_turns g (turn_of t') \<Longrightarrow> reconnectAttempts (state_of t') = reconnectAttempts g"
  by (simp_all add: handler_turns_def login_turns_def turn_of_def quiet_turn_def connection_def)

lemma step_attempts:
  assumes "reachable cfg rt w"
  shows "reconnectAttempts (glob (step cfg rt a w)) =
     (case a of
        Opens ready \<Rightarrow> 0
      | Fires h \<Rightarrow>
          if \<exists>d. (h, ReconnectTimeout d) \<in> set (timers (glob w))
          then reconnectAttempts (glob w) + 1 else reconnectAttempts (glob w)
      | _ \<Rightarrow> reconnectAttempts (glob w))"
proof -
  have inv: "invariant w"
    using assms by (rule reachable_invariant)
  show ?thesis
  proof (cases a)
    case (Fires h)
    then show ?thesis
      using inv fire_attempts [of "glob w" h] by (simp add: invariant_def)
  next
    case (Arrives data)
    then show ?thesis
      using fine_handleMessage [of cfg rt data "glob w"]
        turn_attempts(1) [of "glob w" "handleMessage cfg rt data (glob w)"]
      by (simp add: Let_def handler_turn_def fine_def)
  next
    case (HandlerGoesOn i b)
    show ?thesis
    proof (cases "i < length (handlers w)")
      case True
      then have m: "maintains handler_turns (handlers w ! i)"
        using inv by (simp add: invariant_def)
      show ?thesis
      proof (cases "resume (handlers w ! i) b (glob w) (map_of (settlements w))")
        case None
        then show ?thesis
          using HandlerGoesOn True by simp
      next
        case (Some t)
        from resume_maintains [OF Some m] have "handler_turns (glob w) (turn_of t)"
          by simp
        from turn_attempts(1) [OF this] show ?thesis
          using HandlerGoesOn True Some by (simp add: handler_turn_def)
      qed
    next
      case False
      then show ?thesis
        using HandlerGoesOn by simp
    qed
  next
    case (LoginGoesOn j b)
    show ?thesis
    proof (cases "j < length (logins w)")
      case True
      then have "logins w ! j \<in> set (logins w)"
        by simp
      then have m: "maintains login_turns (snd (logins w ! j))"
        using inv by (auto simp add: invariant_def)
      show ?thesis
      proof (cases "resume (snd (logins w ! j)) b (glob w) (map_of (settlements w))")
        case None
        then show ?thesis
          using LoginGoesOn True by simp
      next
        case (Some t)
        from resume_maintains [OF Some m] have "login_turns (glob w) (turn_of t)"
          by simp
        from turn_attempts(2) [OF this] show ?thesis
          using LoginGoesOn True Some by (simp add: login_turn_def split: option.splits)
      qed
    next
      case False
      then show ?thesis
        using LoginGoesOn by simp
    qed
  qed (simp_all add: handler_attempts)
qed

text \<open>
  C7. In every state the process can reach at most one reconnect timeout is pending, and
  \<^verbatim>\<open>reconnectTimer\<close> is \<^verbatim>\<open>null\<close> exactly when none is. With a timeout pending,
  \<^verbatim>\<open>scheduleReconnect\<close> changes nothing: no second timer, the delay of the first as it was.
  The attempt counter grows by one in the turn in which a reconnect timeout fires, is set
  to zero when the socket opens, and is left as it is by every other turn, a close or an
  error of the socket included.
\<close>

theorem C7_one_reconnect_timer:
  "(reachable cfg rt w \<longrightarrow>
      length (reconnects (glob w)) \<le> 1
      \<and> (reconnectTimer (glob w) = None) = (reconnects (glob w) = []))
   \<and> (reconnectTimer st \<noteq> None \<longrightarrow> scheduleReconnect st = st)
   \<and> (reachable cfg rt w \<longrightarrow>
        reconnectAttempts (glob (step cfg rt a w)) =
          (case a of
             Opens ready \<Rightarrow> 0
           | Fires h \<Rightarrow>
               if \<exists>d. (h, ReconnectTimeout d) \<in> set (timers (glob w))
               then reconnectAttempts (glob w) + 1 else reconnectAttempts (glob w)
           | _ \<Rightarrow> reconnectAttempts (glob w)))"
proof -
  have "length (reconnects (glob w)) \<le> 1 \<and> (reconnectTimer (glob w) = None) = (reconnects (glob w) = [])"
    if "reachable cfg rt w"
    using reachable_invariant [OF that]
    by (cases "reconnectTimer (glob w)") (auto simp add: invariant_def timers_ok_def)
  moreover have "reconnectTimer st \<noteq> None \<longrightarrow> scheduleReconnect st = st"
    by (simp add: scheduleReconnect_def)
  ultimately show ?thesis
    using step_attempts [of cfg rt w a] by blast
qed

theorem C7_one_reconnect_timer_witness:
  "reachable cfg0 rt0 (step cfg0 rt0 Closes (step cfg0 rt0 Errors (started 0)))
   \<and> reconnects (glob (step cfg0 rt0 Closes (step cfg0 rt0 Errors (started 0))))
        = [(0, ReconnectTimeout 1000)]
   \<and> reconnectTimer (glob (step cfg0 rt0 Errors (started 0))) \<noteq> None
   \<and> scheduleReconnect (glob (step cfg0 rt0 Errors (started 0))) = glob (step cfg0 rt0 Errors (started 0))
   \<and> reconnectAttempts (glob (step cfg0 rt0 (Fires 0) (step cfg0 rt0 Closes (step cfg0 rt0 Errors (started 0))))) = 1"
  using C7_one_reconnect_timer [of cfg0 rt0 "step cfg0 rt0 Closes (step cfg0 rt0 Errors (started 0))"
      "glob (step cfg0 rt0 Errors (started 0))" "Fires 0"]
    reachable.turn [OF reachable.turn [OF reachable.start], of cfg0 rt0 Closes Errors 0]
  by (simp add: started_def loaded_def connect_def console_log_def handleError_def handleClose_def
      scheduleReconnect_def setTimer_def clearInactivityTimer_def reconnects_def reconnect_delay_def
      Let_def)

section \<open>Single-flight login\<close>

lemma ensure_starts_login:
  assumes "cmsLoginUrl cfg \<noteq> None" "is_set (CMS_EMAIL cfg)" "is_set (CMS_PASSWORD cfg)"
    "\<not> truthy (cmsAuthToken st)" "pendingCmsLogin st = None"
  shows "ensureCmsSession cfg rt st =
           Spawn (promises st) (pending_login cfg rt st)
             (AwaitPromise (promises st)
                (st\<lparr>pendingCmsLogin := Some (promises st), promises := Suc (promises st)\<rparr>) Return)"
  using assms pending_login_head [of cfg rt st]
  by (simp add: ensureCmsSession_def Let_def)

lemma ensure_joins_login:
  assumes "cmsLoginUrl cfg \<noteq> None" "is_set (CMS_EMAIL cfg)" "is_set (CMS_PASSWORD cfg)"
    "\<not> truthy (cmsAuthToken st)" "pendingCmsLogin st = Some p"
  shows "ensureCmsSession cfg rt st = AwaitPromise p st Return"
  using assms by (auto simp add: ensureCmsSession_def)

lemma reachable_logins:
  assumes "reachable cfg rt w"
  shows "length (logins w) \<le> 1"
    and "pendingCmsLogin (glob w) = (case logins w of [] \<Rightarrow> None | (p, t) # ls \<Rightarrow> Some p)"
proof -
  have inv: "invariant w"
    using assms by (rule reachable_invariant)
  show "length (logins w) \<le> 1"
    using inv by (cases "pendingCmsLogin (glob w)") (auto simp add: invariant_def)
  show "pendingCmsLogin (glob w) = (case logins w of [] \<Rightarrow> None | (p, t) # ls \<Rightarrow> Some p)"
    using inv by (cases "pendingCmsLogin (glob w)") (auto simp add: invariant_def)
qed

text \<open>The login attempt: its one request, and the value its promise settles with.\<close>

lemma attempt_calls:
  assumes "cmsLoginUrl cfg \<noteq> None" "is_set (CMS_EMAIL cfg)" "is_set (CMS_PASSWORD cfg)"
  shows "calls (trace (run (pending_login cfg rt s :: login) env n)) = [(login_request cfg, fetched (env n))]"
  using assms
  by (simp add: pending_login_def login_attempt_def loginToCms_def await_def or_throw_def Let_def
      trace_def case_prod_beta split: settled.splits)

lemma attempt_result:
  assumes "cmsLoginUrl cfg \<noteq> None" "is_set (CMS_EMAIL cfg)" "is_set (CMS_PASSWORD cfg)"
  shows "result (run (pending_login cfg rt s :: login) env n) =
     (case login_result rt (fetched (env n)) (text_read (env (Suc n))) (json_read (env (Suc n))) of
        Rejected e \<Rightarrow> Rejected e
      | Fulfilled token \<Rightarrow>
          Fulfilled (cmsAuthToken
            (interference (env (Suc (Suc n)))
               (console_log ''Authenticated with Payload CMS REST API''
                  ((interference (env (Suc n)) (interference (env n) s))\<lparr>cmsAuthToken := token\<rparr>)))))"
  using assms
  by (auto simp add: pending_login_def login_attempt_def loginToCms_def await_def or_throw_def Let_def
      login_result_def result_def case_prod_beta split: settled.splits)

text \<open>
  In the process, the turn in which the attempt behind a promise returns or throws gives
  the promise that result as its value, and a promise keeps the value it has.
\<close>

lemma login_settlement:
  assumes "reachable cfg rt w" "j < length (logins w)"
    "resume (snd (logins w ! j)) b (glob w) (map_of (settlements w)) = Some t'" "outcome t' = Some r"
  shows "map_of (settlements (step cfg rt (LoginGoesOn j b) w)) (fst (logins w ! j)) = Some r"
proof -
  have "logins w ! j \<in> set (logins w)"
    using assms(2) by simp
  then have "map_of (settlements w) (fst (logins w ! j)) = None"
    using reachable_invariant [OF assms(1)] by (auto simp add: invariant_def)
  then show ?thesis
    using assms(2-4) by (simp add: login_turn_def map_add_def)
qed

lemma settlement_stays:
  assumes "map_of (settlements w) p = Some r"
  shows "map_of (settlements (step cfg rt a w)) p = Some r"
proof (cases a)
  case (Arrives data)
  then show ?thesis
    using assms by (simp add: Let_def handler_turn_def)
next
  case (HandlerGoesOn i b)
  then show ?thesis
    using assms by (simp add: handler_turn_def split: option.splits)
next
  case (LoginGoesOn j b)
  then show ?thesis
    using assms by (simp add: login_turn_def map_add_def split: option.splits)
qed (use assms in simp_all)

lemma steps_reachable: "reachable cfg rt w \<Longrightarrow> reachable cfg rt (steps cfg rt as w)"
proof (induction as arbitrary: w)
  case Nil
  then show ?case
    by (simp add: steps_def)
next
  case (Cons a as)
  from Cons.IH [OF reachable.turn [OF Cons.prems]] show ?case
    by (simp add: steps_def)
qed

text \<open>
  C2. In every state the process can reach at most one login attempt is pending, and
  \<^verbatim>\<open>pendingCmsLogin\<close> holds its promise. A call of \<^verbatim>\<open>ensureCmsSession\<close> with no token cached
  and no login pending creates the promise of a new attempt, stores it and awaits it; a
  call made while a promise \<open>p\<close> is pending, still without a token, creates nothing and
  awaits \<open>p\<close>. Neither caller issues a request of its own, and each returns what the
  promise it awaits settles with, a value or a failure. The attempt behind the promise
  issues exactly one request, the login request. It fails with the failure of that
  request or of reading its body, with \<^verbatim>\<open>Payload login failed\<close> when the response is not
  ok, and with \<^verbatim>\<open>Payload login response missing token\<close> when the body holds no token;
  otherwise it caches the token of the body and returns the token cached one turn later.
  In the process, the turn in which the attempt returns or throws gives its promise that
  result as its value, a promise keeps its value through every later turn, and a call
  that awaits the promise goes on once the value is there, and with that value: the
  callers of one attempt all get its result.
\<close>

theorem C2_single_flight_login:
  "(reachable cfg rt w \<longrightarrow>
      length (logins w) \<le> 1
      \<and> pendingCmsLogin (glob w) = (case logins w of [] \<Rightarrow> None | (p, t) # ls \<Rightarrow> Some p))
   \<and> (cmsLoginUrl cfg \<noteq> None \<and> is_set (CMS_EMAIL cfg) \<and> is_set (CMS_PASSWORD cfg)
        \<and> \<not> truthy (cmsAuthToken st) \<and> pendingCmsLogin st = None \<longrightarrow>
        ensureCmsSession cfg rt st =
          Spawn (promises st) (pending_login cfg rt st)
            (AwaitPromise (promises st)
               (st\<lparr>pendingCmsLogin := Some (promises st), promises := Suc (promises st)\<rparr>) Return)
        \<and> run (ensureCmsSession cfg rt st) env n =
            (promised (env n),
             interference (env n) (st\<lparr>pendingCmsLogin := Some (promises st), promises := Suc (promises st)\<rparr>),
             [Spawned (promises st),
              Awaited (promises st) (promised (env n))
                (st\<lparr>pendingCmsLogin := Some (promises st), promises := Suc (promises st)\<rparr>)]))
   \<and> (cmsLoginUrl cfg \<noteq> None \<and> is_set (CMS_EMAIL cfg) \<and> is_set (CMS_PASSWORD cfg)
        \<and> \<not> truthy (cmsAuthToken st') \<and> pendingCmsLogin st' = Some p \<longrightarrow>
        ensureCmsSession cfg rt st' = AwaitPromise p st' Return
        \<and> run (ensureCmsSession cfg rt st') env n =
            (promised (env n), interference (env n) st', [Awaited p (promised (env n)) st']))
   \<and> (cmsLoginUrl cfg \<noteq> None \<and> is_set (CMS_EMAIL cfg) \<and> is_set (CMS_PASSWORD cfg) \<longrightarrow>
        calls (trace (run (pending_login cfg rt s :: login) env n)) = [(login_request cfg, fetched (env n))]
        \<and> result (run (pending_login cfg rt s :: login) env n) =
            (case login_result rt (fetched (env n)) (text_read (env (Suc n))) (json_read (env (Suc n))) of
               Rejected e \<Rightarrow> Rejected e
             | Fulfilled token \<Rightarrow>
                 Fulfilled (cmsAuthToken
                   (interference (env (Suc (Suc n)))
                      (console_log ''Authenticated with Payload CMS REST API''
                         ((interference (env (Suc n)) (interference (env n) s))\<lparr>cmsAuthToken := token\<rparr>))))))
   \<and> (reachable cfg rt w \<and> j < length (logins w)
        \<and> resume (snd (logins w ! j)) b (glob w) (map_of (settlements w)) = Some t'
        \<and> outcome t' = Some r \<longrightarrow>
        map_of (settlements (step cfg rt (LoginGoesOn j b) w)) (fst (logins w ! j)) = Some r)
   \<and> (map_of (settlements w') q = Some r' \<longrightarrow> map_of (settlements (step cfg rt a w')) q = Some r')
   \<and> resume (AwaitPromise q g Return :: jsval task) Settled g' vs
        = (case vs q of None \<Rightarrow> None | Some v \<Rightarrow> Some (Return v g'))"
proof -
  have 1: "reachable cfg rt w \<longrightarrow>
      length (logins w) \<le> 1
      \<and> pendingCmsLogin (glob w) = (case logins w of [] \<Rightarrow> None | (p, t) # ls \<Rightarrow> Some p)"
    using reachable_logins [of cfg rt w] by simp
  have 2: "cmsLoginUrl cfg \<noteq> None \<and> is_set (CMS_EMAIL cfg) \<and> is_set (CMS_PASSWORD cfg)
        \<and> \<not> truthy (cmsAuthToken st) \<and> pendingCmsLogin st = None \<longrightarrow>
        ensureCmsSession cfg rt st =
          Spawn (promises st) (pending_login cfg rt st)
            (AwaitPromise (promises st)
               (st\<lparr>pendingCmsLogin := Some (promises st), promises := Suc (promises st)\<rparr>) Return)
        \<and> run (ensureCmsSession cfg rt st) env n =
            (promised (env n),
             interference (env n) (st\<lparr>pendingCmsLogin := Some (promises st), promises := Suc (promises st)\<rparr>),
             [Spawned (promises st),
              Awaited (promises st) (promised (env n))
                (st\<lparr>pendingCmsLogin := Some (promises st), promises := Suc (promises st)\<rparr>)])"
  proof
    assume "cmsLoginUrl cfg \<noteq> None \<and> is_set (CMS_EMAIL cfg) \<and> is_set (CMS_PASSWORD cfg)
        \<and> \<not> truthy (cmsAuthToken st) \<and> pendingCmsLogin st = None"
    then have "ensureCmsSession cfg rt st =
          Spawn (promises st) (pending_login cfg rt st)
            (AwaitPromise (promises st)
               (st\<lparr>pendingCmsLogin := Some (promises st), promises := Suc (promises st)\<rparr>) Return)"
      by (intro ensure_starts_login) simp_all
    then show "ensureCmsSession cfg rt st =
          Spawn (promises st) (pending_login cfg rt st)
            (AwaitPromise (promises st)
               (st\<lparr>pendingCmsLogin := Some (promises st), promises := Suc (promises st)\<rparr>) Return)
        \<and> run (ensureCmsSession cfg rt st) env n =
            (promised (env n),
             interference (env n) (st\<lparr>pendingCmsLogin := Some (promises st), promises := Suc (promises st)\<rparr>),
             [Spawned (promises st),
              Awaited (promises st) (promised (env n))
                (st\<lparr>pendingCmsLogin := Some (promises st), promises := Suc (promises st)\<rparr>)])"
      by simp
  qed
  have 3: "cmsLoginUrl cfg \<noteq> None \<and> is_set (CMS_EMAIL cfg) \<and> is_set (CMS_PASSWORD cfg)
        \<and> \<not> truthy (cmsAuthToken st') \<and> pendingCmsLogin st' = Some p \<longrightarrow>
        ensureCmsSession cfg rt st' = AwaitPromise p st' Return
        \<and> run (ensureCmsSession cfg rt st') env n =
            (promised (env n), interference (env n) st', [Awaited p (promised (env n)) st'])"
  proof
    assume "cmsLoginUrl cfg \<noteq> None \<and> is_set (CMS_EMAIL cfg) \<and> is_set (CMS_PASSWORD cfg)
        \<and> \<not> truthy (cmsAuthToken st') \<and> pendingCmsLogin st' = Some p"
    then have "ensureCmsSession cfg rt st' = AwaitPromise p st' Return"
      by (intro ensure_joins_login) simp_all
    then show "ensureCmsSession cfg rt st' = AwaitPromise p st' Return
        \<and> run (ensureCmsSession cfg rt st') env n =
            (promised (env n), interference (env n) st', [Awaited p (promised (env n)) st'])"
      by simp
  qed
  have 4: "cmsLoginUrl cfg \<noteq> None \<and> is_set (CMS_EMAIL cfg) \<and> is_set (CMS_PASSWORD cfg) \<longrightarrow>
        calls (trace (run (pending_login cfg rt s :: login) env n)) = [(login_request cfg, fetched (env n))]
        \<and> result (run (pending_login cfg rt s :: login) env n) =
            (case login_result rt (fetched (env n)) (text_read (env (Suc n))) (json_read (env (Suc n))) of
               Rejected e \<Rightarrow> Rejected e
             | Fulfilled token \<Rightarrow>
                 Fulfilled (cmsAuthToken
                   (interference (env (Suc (Suc n)))
                      (console_log ''Authenticated with Payload CMS REST API''
                         ((interference (env (Suc n)) (interference (env n) s))\<lparr>cmsAuthToken := token\<rparr>)))))"
    using attempt_calls [of cfg rt s env n] attempt_result [of cfg rt s env n] by simp
  have 5: "reachable cfg rt w \<and> j < length (logins w)
        \<and> resume (snd (logins w ! j)) b (glob w) (map_of (settlements w)) = Some t'
        \<and> outcome t' = Some r \<longrightarrow>
        map_of (settlements (step cfg rt (LoginGoesOn j b) w)) (fst (logins w ! j)) = Some r"
    using login_settlement [of cfg rt w j b t' r] by simp
  have 6: "map_of (settlements w') q = Some r' \<longrightarrow> map_of (settlements (step cfg rt a w')) q = Some r'"
    using settlement_stays [of w' q r' cfg rt a] by simp
  have 7: "resume (AwaitPromise q g Return :: jsval task) Settled g' vs
        = (case vs q of None \<Rightarrow> None | Some v \<Rightarrow> Some (Return v g'))"
    by simp
  show ?thesis
    by (intro conjI) (fact 1, fact 2, fact 3, fact 4, fact 5, fact 6, fact 7)
qed

text \<open>
  Two reports arrive one after the other with no token cached: one login attempt is
  pending, suspended at its request, and both calls of \<^verbatim>\<open>handleMessage\<close> await its
  promise. Once the login has been answered with a token and has run to its end, the
  promise is fulfilled with that token, and both calls go on to their query with it.
\<close>

lemma two_messages_state:
  "map (\<lambda>(p, t). (p, waiting t)) (logins two_messages) = [(0, ForFetch (login_request cfg0))]
   \<and> map waiting (handlers two_messages) = [ForPromise 0, ForPromise 0]"
  by (simp add: two_messages_def started_def handleMessage_def persistPositionReport_def
      ensureCmsSession_def pending_login_def login_attempt_def loginToCms_def await_def
      handler_turn_def Let_def message_def report_def cfg0_def cmsLoginUrl_def cmsCollectionUrl_def
      is_set_def loaded_def connect_def console_log_def)

lemma login_answered_state:
  "length (logins login_answered) = 1 \<and> fst (logins login_answered ! 0) = 0
   \<and> (\<exists>t'. resume (snd (logins login_answered ! 0)) Settled (glob login_answered)
               (map_of (settlements login_answered)) = Some t'
           \<and> outcome t' = Some (Fulfilled (JStr ''tok'')))"
  by (simp add: login_answered_def steps_def two_messages_def started_def handleMessage_def
      persistPositionReport_def ensureCmsSession_def pending_login_def login_attempt_def
      loginToCms_def login_finally_def finally_promise_def await_def or_throw_def handler_turn_def
      login_turn_def remove_nth_def js_or_def ok_def Let_def message_def report_def cfg0_def
      cmsLoginUrl_def cmsCollectionUrl_def is_set_def loaded_def connect_def console_log_def)

lemma both_served_state:
  "settlements both_served = [(0, Fulfilled (JStr ''tok''))]
   \<and> logins both_served = []
   \<and> map (\<lambda>t. case waiting t of ForFetch rq \<Rightarrow> map_of (headers rq) ''Authorization'' | _ \<Rightarrow> None)
        (handlers both_served)
      = [Some ''Bearer tok'', Some ''Bearer tok'']"
  by (simp add: both_served_def steps_def two_messages_def started_def handleMessage_def
      persistPositionReport_def shouldPersistPositionReport_def performAuthorizedRequest_def
      fetchRecentLogs_def ensureCmsSession_def pending_login_def login_attempt_def loginToCms_def
      login_finally_def finally_promise_def await_def or_throw_def handler_turn_def login_turn_def
      remove_nth_def js_or_def ok_def Let_def message_def report_def cfg0_def cmsLoginUrl_def
      cmsCollectionUrl_def is_set_def loaded_def connect_def console_log_def)

theorem C2_single_flight_login_witness:
  "reachable cfg0 rt0 two_messages
   \<and> length (logins two_messages) \<le> 1
   \<and> map (\<lambda>(p, t). (p, waiting t)) (logins two_messages) = [(0, ForFetch (login_request cfg0))]
   \<and> map waiting (handlers two_messages) = [ForPromise 0, ForPromise 0]
   \<and> cmsLoginUrl cfg0 \<noteq> None \<and> is_set (CMS_EMAIL cfg0) \<and> is_set (CMS_PASSWORD cfg0)
   \<and> \<not> truthy (cmsAuthToken (loaded 0)) \<and> pendingCmsLogin (loaded 0) = None
   \<and> \<not> truthy (cmsAuthToken login_pending) \<and> pendingCmsLogin login_pending = Some 0
   \<and> ensureCmsSession cfg0 rt0 (loaded 0)
        = Spawn 0 (pending_login cfg0 rt0 (loaded 0)) (AwaitPromise 0 login_pending Return)
   \<and> ensureCmsSession cfg0 rt0 login_pending = AwaitPromise 0 login_pending Return
   \<and> calls (trace (run (pending_login cfg0 rt0 (loaded 0) :: login)
               (script [responded 200, parsed (JObj [(''token'', JStr ''tok'')])]) 0))
        = [(login_request cfg0, Fulfilled \<lparr>status = 200, statusText = []\<rparr>)]
   \<and> result (run (pending_login cfg0 rt0 (loaded 0) :: login)
               (script [responded 200, parsed (JObj [(''token'', JStr ''tok'')])]) 0)
        = Fulfilled (JStr ''tok'')
   \<and> reachable cfg0 rt0 login_answered \<and> 0 < length (logins login_answered)
   \<and> (\<exists>t'. resume (snd (logins login_answered ! 0)) Settled (glob login_answered)
               (map_of (settlements login_answered)) = Some t'
           \<and> outcome t' = Some (Fulfilled (JStr ''tok'')))
   \<and> map_of (settlements (step cfg0 rt0 (LoginGoesOn 0 Settled) login_answered)) 0
        = Some (Fulfilled (JStr ''tok''))
   \<and> map_of (settlements both_served) 0 = Some (Fulfilled (JStr ''tok''))
   \<and> map_of (settlements (step cfg0 rt0 (Arrives None) both_served)) 0 = Some (Fulfilled (JStr ''tok''))
   \<and> map (\<lambda>t. case waiting t of ForFetch rq \<Rightarrow> map_of (headers rq) ''Authorization'' | _ \<Rightarrow> None)
        (handlers both_served)
      = [Some ''Bearer tok'', Some ''Bearer tok'']"
proof -
  have r: "reachable cfg0 rt0 two_messages"
    unfolding two_messages_def by (intro reachable.turn reachable.start)
  then have ra: "reachable cfg0 rt0 login_answered"
    unfolding login_answered_def by (rule steps_reachable)
  have c: "cmsLoginUrl cfg0 \<noteq> None" "is_set (CMS_EMAIL cfg0)" "is_set (CMS_PASSWORD cfg0)"
    by (simp_all add: cfg0_def cmsLoginUrl_def is_set_def)
  have s: "\<not> truthy (cmsAuthToken (loaded 0))" "pendingCmsLogin (loaded 0) = None"
    "\<not> truthy (cmsAuthToken login_pending)" "pendingCmsLogin login_pending = Some 0"
    "promises (loaded 0) = 0"
    "(loaded 0)\<lparr>pendingCmsLogin := Some 0, promises := Suc 0\<rparr> = login_pending"
    by (simp_all add: login_pending_def loaded_def connect_def console_log_def)
  have e: "fetched (script [responded 200, parsed (JObj [(''token'', JStr ''tok'')])] 0)
             = Fulfilled \<lparr>status = 200, statusText = []\<rparr>"
    "login_result rt0 (fetched (script [responded 200, parsed (JObj [(''token'', JStr ''tok'')])] 0))
        (text_read (script [responded 200, parsed (JObj [(''token'', JStr ''tok'')])] (Suc 0)))
        (json_read (script [responded 200, parsed (JObj [(''token'', JStr ''tok'')])] (Suc 0)))
      = Fulfilled (JStr ''tok'')"
    "interference (script [responded 200, parsed (JObj [(''token'', JStr ''tok'')])] n) = (\<lambda>s. s)" for n
    by (simp_all add: script_def responded_def parsed_def quiet_def login_result_def ok_def js_or_def
        nth_Cons split: nat.splits)
  from login_answered_state obtain t' where
    a: "length (logins login_answered) = 1" "fst (logins login_answered ! 0) = 0"
      "resume (snd (logins login_answered ! 0)) Settled (glob login_answered)
         (map_of (settlements login_answered)) = Some t'"
      "outcome t' = Some (Fulfilled (JStr ''tok''))"
    by blast
  have b: "map_of (settlements both_served) 0 = Some (Fulfilled (JStr ''tok''))"
    using both_served_state by simp
  note t = C2_single_flight_login [where cfg = cfg0 and rt = rt0 and w = login_answered
      and st = "loaded 0" and st' = login_pending and p = 0 and s = "loaded 0"
      and env = "script [responded 200, parsed (JObj [(''token'', JStr ''tok'')])]" and n = 0
      and j = 0 and b = Settled and t' = t' and r = "Fulfilled (JStr ''tok'')"
      and w' = both_served and q = 0 and r' = "Fulfilled (JStr ''tok'')" and a = "Arrives None"]
  have 1: "ensureCmsSession cfg0 rt0 (loaded 0)
        = Spawn 0 (pending_login cfg0 rt0 (loaded 0)) (AwaitPromise 0 login_pending Return)"
    "ensureCmsSession cfg0 rt0 login_pending = AwaitPromise 0 login_pending Return"
    using t c s by simp_all
  have 2: "calls (trace (run (pending_login cfg0 rt0 (loaded 0) :: login)
               (script [responded 200, parsed (JObj [(''token'', JStr ''tok'')])]) 0))
        = [(login_request cfg0, Fulfilled \<lparr>status = 200, statusText = []\<rparr>)]"
    "result (run (pending_login cfg0 rt0 (loaded 0) :: login)
               (script [responded 200, parsed (JObj [(''token'', JStr ''tok'')])]) 0)
        = Fulfilled (JStr ''tok'')"
    using t c e by (simp_all add: console_log_def)
  have 3: "map_of (settlements (step cfg0 rt0 (LoginGoesOn 0 Settled) login_answered)) 0
        = Some (Fulfilled (JStr ''tok''))"
    "map_of (settlements (step cfg0 rt0 (Arrives None) both_served)) 0 = Some (Fulfilled (JStr ''tok''))"
    using t ra a b by simp_all
  have 4: "length (logins two_messages) \<le> 1"
    using C2_single_flight_login [where cfg = cfg0 and rt = rt0 and w = two_messages] r by blast
  have 5: "0 < length (logins login_answered)"
    using a(1) by simp
  have 6: "\<exists>t'. resume (snd (logins login_answered ! 0)) Settled (glob login_answered)
               (map_of (settlements login_answered)) = Some t'
           \<and> outcome t' = Some (Fulfilled (JStr ''tok''))"
    using login_answered_state by blast
  show ?thesis
    using r ra c s(1-4) 1 2 3 4 5 6 b two_messages_state both_served_state
    by (intro conjI) simp_all
qed

section \<open>A failed login\<close>

text \<open>
  What holds of the variable: a login attempt ends, whatever the platform answers and
  whether it has a token or an error to give, by setting \<^verbatim>\<open>pendingCmsLogin\<close> to \<^verbatim>\<open>null\<close>, and
  the turn in which a login promise settles leaves the variable \<^verbatim>\<open>null\<close> and no attempt
  pending.
\<close>

lemma pending_login_final:
  "pendingCmsLogin (final (run (pending_login cfg rt st :: login) env n)) = None"
  by (simp add: pending_login_def run_bind login_finally_def finally_promise_def case_prod_beta
      final_def after_def split: settled.splits)

lemma login_settles:
  assumes "reachable cfg rt w"
    and "length (logins (step cfg rt (LoginGoesOn j a) w)) < length (logins w)"
  shows "pendingCmsLogin (glob (step cfg rt (LoginGoesOn j a) w)) = None
         \<and> logins (step cfg rt (LoginGoesOn j a) w) = []"
proof -
  have "invariant (step cfg rt (LoginGoesOn j a) w)"
    using assms(1) by (intro reachable_invariant [of cfg rt] reachable.turn)
  moreover have "xs = []" if "length xs < length (logins w)" for xs :: "(nat \<times> login) list"
    using that reachable_logins(1) [OF assms(1)] by (cases xs) auto
  from this [OF assms(2)] have "logins (step cfg rt (LoginGoesOn j a) w) = []" .
  ultimately show ?thesis
    by (cases "pendingCmsLogin (glob (step cfg rt (LoginGoesOn j a) w))") (auto simp add: invariant_def)
qed

text \<open>
  A rejected login leaves a rejected promise without a handler, in every run of the
  attempt: the one that \<^verbatim>\<open>finally\<close> returned.
\<close>

lemma rejected_login_unhandled:
  "result (run (pending_login cfg rt st :: login) env n) = Rejected e \<Longrightarrow>
   unhandledRejections (final (run (pending_login cfg rt st :: login) env n)) \<noteq> []"
  by (simp add: pending_login_def run_bind login_finally_def finally_promise_def case_prod_beta
      final_def result_def after_def split: settled.splits)

text \<open>
  The process with its end is part of the process without: what holds in every state
  reachable by \<open>step\<close> holds in every state the program reaches before it ends.
\<close>

lemma node_run_reachable: "reachable cfg rt w \<Longrightarrow> reachable cfg rt (node_run cfg rt as w)"
proof (induction as arbitrary: w)
  case Nil
  then show ?case
    by (simp add: node_run_def)
next
  case (Cons a as)
  have "reachable cfg rt (node_step cfg rt a w)"
    using Cons.prems by (simp add: node_step_def reachable.turn)
  from Cons.IH [OF this] show ?case
    by (simp add: node_run_def)
qed

text \<open>Once the process has ended with no call suspended, nothing happens any more.\<close>

lemma ended_step:
  assumes "unhandledRejections (glob w) \<noteq> []" "handlers w = []" "logins w = []"
  shows "node_step cfg rt a w = w"
  using assms by (cases a) (simp_all add: node_step_def)

lemma ended_run:
  assumes "unhandledRejections (glob w) \<noteq> []" "handlers w = []" "logins w = []"
  shows "node_run cfg rt as w = w"
proof (induction as)
  case Nil
  show ?case
    by (simp add: node_run_def)
next
  case (Cons a as)
  then show ?case
    using ended_step [OF assms, of cfg rt a] by (simp add: node_run_def)
qed

lemma login_failed_state:
  "pendingCmsLogin (glob login_failed) = None
   \<and> cmsAuthToken (glob login_failed) = JNull
   \<and> settlements login_failed = [(0, Rejected TypeError)]
   \<and> unhandledRejections (glob login_failed) = [TypeError]
   \<and> last (console (glob login_failed)) = ''Failed to authenticate with Payload REST API''
   \<and> handlers login_failed = [] \<and> logins login_failed = []"
  by (simp add: login_failed_def node_run_def node_step_def started_def handleMessage_def
      persistPositionReport_def ensureCmsSession_def pending_login_def login_attempt_def
      loginToCms_def login_finally_def finally_promise_def await_def or_throw_def handler_turn_def
      login_turn_def remove_nth_def Let_def message_def report_def cfg0_def cmsLoginUrl_def
      cmsCollectionUrl_def is_set_def loaded_def connect_def console_log_def)

lemma login_failed_next:
  "map (\<lambda>(p, t). (p, waiting t)) (logins (step cfg0 rt0 (Arrives (Some message)) login_failed))
     = [(1, ForFetch (login_request cfg0))]"
  by (simp add: login_failed_def node_run_def node_step_def started_def handleMessage_def
      persistPositionReport_def ensureCmsSession_def pending_login_def login_attempt_def
      loginToCms_def login_finally_def finally_promise_def await_def or_throw_def handler_turn_def
      login_turn_def remove_nth_def Let_def message_def report_def cfg0_def cmsLoginUrl_def
      cmsCollectionUrl_def is_set_def loaded_def connect_def console_log_def)

text \<open>
  C10 does not hold of the code. A report arrives with no token cached and the request of
  the login fails. The attempt ends and sets \<^verbatim>\<open>pendingCmsLogin\<close> to \<^verbatim>\<open>null\<close>, and the call of
  \<^verbatim>\<open>handleMessage\<close> that awaited it prints the failure and returns. But the promise that
  \<^verbatim>\<open>pendingCmsLogin.finally(...)\<close> returned is rejected with the error of the login and has
  no handler, and the process ends: whatever arrives afterwards, nothing changes, no
  token is ever cached and no login is ever started again. Had the process gone on, the
  next report would have started a new attempt, with the promise 1.
\<close>

theorem C10_failed_login_ends_process:
  "pendingCmsLogin (glob login_failed) = None
   \<and> cmsAuthToken (glob login_failed) = JNull
   \<and> settlements login_failed = [(0, Rejected TypeError)]
   \<and> unhandledRejections (glob login_failed) = [TypeError]
   \<and> last (console (glob login_failed)) = ''Failed to authenticate with Payload REST API''
   \<and> (\<forall>as. node_run cfg0 rt0 as login_failed = login_failed)
   \<and> logins (node_run cfg0 rt0 [Arrives (Some message)] login_failed) = []
   \<and> map (\<lambda>(p, t). (p, waiting t)) (logins (step cfg0 rt0 (Arrives (Some message)) login_failed))
        = [(1, ForFetch (login_request cfg0))]"
proof -
  have "node_run cfg0 rt0 as login_failed = login_failed" for as
    using login_failed_state by (intro ended_run) simp_all
  then show ?thesis
    using login_failed_state login_failed_next by simp
qed

section \<open>The recency rule\<close>

lemma ensure_trace:
  "calls (trace (run (ensureCmsSession cfg rt st) env n)) = []"
  "e \<in> set (trace (run (ensureCmsSession cfg rt st) env n)) \<Longrightarrow> \<not> body_read e"
  using run_ensure_cases [of cfg rt st env n] by auto

lemma checked_run_first_fetch:
  assumes "cmsCollectionUrl cfg \<noteq> None" "truthy (cmsAuthToken g)"
  shows "first_fetch (trace (checked_run cfg rt pr g env m)) = Some g"
  unfolding checked_run_def Let_def
  using shouldPersist_calls(2) [OF assms, of rt pr env m]
  by simp

lemma persist_recent:
  assumes P: "P = run (persistPositionReport cfg rt pr st) env n"
    and j: "ReadJson response (Fulfilled payload) s \<in> set (trace P)"
    and f: "first_fetch (trace P) = Some s0"
    and d: "doc \<in> set (docs_of payload)" "truthy (get doc ''createdAt'')"
       "number_ge (getTime rt (get doc ''createdAt'')) (Finite (of_int (clock s0 - 6 * 60 * 60 * 1000)))"
  shows "\<forall>(rq, a) \<in> set (calls (trace P)). http_method rq = ''GET''"
proof -
  have c: "cmsCollectionUrl cfg \<noteq> None" "cmsLoginUrl cfg \<noteq> None"
    "is_set (CMS_EMAIL cfg)" "is_set (CMS_PASSWORD cfg)"
    using j unfolding P by (auto simp add: persistPositionReport_def split: if_splits)
  define E where "E = run (ensureCmsSession cfg rt st) env n"
  define m1 where "m1 = n + suspensions (trace E)"
  define g1 where "g1 = interference (env m1) (final E)"
  define C where "C = checked_run cfg rt pr g1 env (Suc m1)"
  have e: "calls (trace E) = []" "ReadJson response (Fulfilled payload) s \<notin> set (trace E)"
    using ensure_trace(1) [of cfg rt st env n]
      ensure_trace(2) [of "ReadJson response (Fulfilled payload) s" cfg rt st env n]
    by (auto simp add: E_def)
  have p: "trace P = trace E @ Turn (final E) # trace C \<and> truthy (cmsAuthToken g1)"
    using j e(2) unfolding P run_persist [OF c] Let_def E_def [symmetric] m1_def [symmetric]
      g1_def [symmetric] C_def [symmetric]
    by (auto split: settled.splits if_splits)
  then have "first_fetch (trace P) = first_fetch (trace C)"
    using first_fetch_append [of "trace E @ [Turn (final E)]" "trace C"] e(1)
    by (simp add: calls_append)
  moreover have t: "truthy (cmsAuthToken g1)"
    using p by simp
  ultimately have "s0 = g1"
    using f checked_run_first_fetch [OF c(1) t, of rt pr env "Suc m1"] by (simp add: C_def)
  moreover have "ReadJson response (Fulfilled payload) s \<in> set (trace C)"
    using j e(2) p by auto
  ultimately have "\<forall>(rq, a) \<in> set (calls (trace C)). http_method rq = ''GET''"
    using d unfolding C_def by (intro checked_run_recent [OF c(1) t]) simp_all
  moreover have "calls (trace P) = calls (trace C)"
    using p e(1) by (simp add: calls_append)
  ultimately show ?thesis
    by simp
qed

text \<open>
  C4. When the duplicate check has read the body of the query as \<open>payload\<close>, and an
  entry of its \<^verbatim>\<open>docs\<close> has a \<^verbatim>\<open>createdAt\<close> that is a time not more than six hours before
  the clock reading with which the check began, then \<^verbatim>\<open>shouldPersistPositionReport\<close>
  returns \<^verbatim>\<open>false\<close>, whatever the coordinates of the report and of the entry; and a call
  of \<^verbatim>\<open>persistPositionReport\<close> in which this happens issues the query and no request that
  writes. The clock reading is that of the state in which the first request, the query,
  was issued.
\<close>

theorem C4_recency_rule:
  "(R = run (shouldPersistPositionReport cfg rt pr st) env n
      \<and> ReadJson response (Fulfilled payload) s \<in> set (trace R)
      \<and> doc \<in> set (docs_of payload) \<and> truthy (get doc ''createdAt'')
      \<and> number_ge (getTime rt (get doc ''createdAt''))
            (Finite (of_int (clock st - 6 * 60 * 60 * 1000)))
      \<longrightarrow> result R = Fulfilled False)
   \<and> (P = run (persistPositionReport cfg rt pr st) env n
      \<and> ReadJson response (Fulfilled payload) s \<in> set (trace P)
      \<and> first_fetch (trace P) = Some s0
      \<and> doc \<in> set (docs_of payload) \<and> truthy (get doc ''createdAt'')
      \<and> number_ge (getTime rt (get doc ''createdAt''))
            (Finite (of_int (clock s0 - 6 * 60 * 60 * 1000)))
      \<longrightarrow> (\<forall>(rq, a) \<in> set (calls (trace P)). http_method rq = ''GET''))"
  using recency_rule [of R cfg rt pr st env n response payload s doc]
    persist_recent [of P cfg rt pr st env n response payload s s0 doc]
  by blast

text \<open>The check and the persistence path two hours after the stored entry was created.\<close>

lemma two_hours_ago_check:
  "run (shouldPersistPositionReport cfg0 rt0 report (authed 93600000))
     (script [responded 200, quiet, parsed (history elsewhere)]) 0
   = (Fulfilled False,
      console_log ''Skipping AIS log: entry exists within last 6 hours'' (authed 93600000),
      [Fetched (fetchRecentLogs cfg0 rt0 ''iso'' (authed 93600000))
         (Fulfilled \<lparr>status = 200, statusText = []\<rparr>) (authed 93600000),
       Turn (authed 93600000),
       ReadJson \<lparr>status = 200, statusText = []\<rparr> (Fulfilled (history elsewhere)) (authed 93600000)])"
  by (simp add: example_defs)

lemma two_hours_ago_persist:
  "run (persistPositionReport cfg0 rt0 report (authed 93600000))
     (script [quiet, responded 200, quiet, parsed (history elsewhere)]) 0
   = (Fulfilled (),
      console_log ''Skipping AIS log: entry exists within last 6 hours'' (authed 93600000),
      [Turn (authed 93600000),
       Fetched (fetchRecentLogs cfg0 rt0 ''iso'' (authed 93600000))
         (Fulfilled \<lparr>status = 200, statusText = []\<rparr>) (authed 93600000),
       Turn (authed 93600000),
       ReadJson \<lparr>status = 200, statusText = []\<rparr> (Fulfilled (history elsewhere)) (authed 93600000),
       Turn (console_log ''Skipping AIS log: entry exists within last 6 hours'' (authed 93600000))])"
  by (simp add: example_defs)

theorem C4_recency_rule_witness:
  "ReadJson \<lparr>status = 200, statusText = []\<rparr> (Fulfilled (history elsewhere)) (authed 93600000)
     \<in> set (trace (run (shouldPersistPositionReport cfg0 rt0 report (authed 93600000))
                       (script [responded 200, quiet, parsed (history elsewhere)]) 0))
   \<and> entry elsewhere \<in> set (docs_of (history elsewhere))
   \<and> truthy (get (entry elsewhere) ''createdAt'')
   \<and> number_ge (getTime rt0 (get (entry elsewhere) ''createdAt''))
         (Finite (of_int (clock (authed 93600000) - 6 * 60 * 60 * 1000)))
   \<and> result (run (shouldPersistPositionReport cfg0 rt0 report (authed 93600000))
                 (script [responded 200, quiet, parsed (history elsewhere)]) 0) = Fulfilled False
   \<and> ReadJson \<lparr>status = 200, statusText = []\<rparr> (Fulfilled (history elsewhere)) (authed 93600000)
     \<in> set (trace (run (persistPositionReport cfg0 rt0 report (authed 93600000))
                       (script [quiet, responded 200, quiet, parsed (history elsewhere)]) 0))
   \<and> first_fetch (trace (run (persistPositionReport cfg0 rt0 report (authed 93600000))
                       (script [quiet, responded 200, quiet, parsed (history elsewhere)]) 0))
       = Some (authed 93600000)
   \<and> list_all (\<lambda>(rq, a). http_method rq = ''GET'')
        (calls (trace (run (persistPositionReport cfg0 rt0 report (authed 93600000))
                       (script [quiet, responded 200, quiet, parsed (history elsewhere)]) 0)))"
proof -
  have d: "entry elsewhere \<in> set (docs_of (history elsewhere))"
    "truthy (get (entry elsewhere) ''createdAt'')"
    "number_ge (getTime rt0 (get (entry elsewhere) ''createdAt''))
         (Finite (of_int (clock (authed 93600000) - 6 * 60 * 60 * 1000)))"
    by (simp_all add: history_def entry_def docs_of_def rt0_def authed_def loaded_def connect_def
        console_log_def)
  show ?thesis
    using C4_recency_rule [of
        "run (shouldPersistPositionReport cfg0 rt0 report (authed 93600000))
           (script [responded 200, quiet, parsed (history elsewhere)]) 0"
        cfg0 rt0 report "authed 93600000" "script [responded 200, quiet, parsed (history elsewhere)]" 0
        "\<lparr>status = 200, statusText = []\<rparr>" "history elsewhere" "authed 93600000" "entry elsewhere"]
      C4_recency_rule [of _ cfg0 rt0 report "authed 93600000"
        "script [quiet, responded 200, quiet, parsed (history elsewhere)]" 0
        "\<lparr>status = 200, statusText = []\<rparr>" "history elsewhere" "authed 93600000" "entry elsewhere"
        "run (persistPositionReport cfg0 rt0 report (authed 93600000))
           (script [quiet, responded 200, quiet, parsed (history elsewhere)]) 0"
        "authed 93600000"]
      d
    unfolding two_hours_ago_check two_hours_ago_persist list_all_iff
    by simp
qed

section \<open>The identical-location rule\<close>

text \<open>
  C3 does not hold of the code. \<^verbatim>\<open>postAisLog\<close> writes the location as
  \<^verbatim>\<open>[pr.Longitude, pr.Latitude]\<close>, and the duplicate check compares element 0 of a stored
  location with \<^verbatim>\<open>pr.Latitude\<close> and element 1 with \<^verbatim>\<open>pr.Longitude\<close>. For the report with
  latitude 10 and longitude 20, ten hours after an entry with the location that the
  program writes for this very report, the check allows the report, and the persistence
  path writes the same location again.
\<close>

theorem C3_location_order:
  "get (json_body (postAisLog cfg0 rt0 report (authed 122400000))) ''location''
     = JArr [JNum (Finite 20), JNum (Finite 10)]
   \<and> result (run (shouldPersistPositionReport cfg0 rt0 report (authed 122400000))
         (script [responded 200, quiet,
            parsed (history (get (json_body (postAisLog cfg0 rt0 report (authed 122400000))) ''location''))])
         0) = Fulfilled True
   \<and> map (\<lambda>(rq, a). (http_method rq, get (json_body rq) ''location''))
        (calls (trace (run (persistPositionReport cfg0 rt0 report (authed 122400000))
           (script [quiet, responded 200, quiet,
              parsed (history (get (json_body (postAisLog cfg0 rt0 report (authed 122400000))) ''location'')),
              quiet, responded 201]) 0)))
     = [(''GET'', JUndefined), (''POST'', JArr [JNum (Finite 20), JNum (Finite 10)])]"
  by (simp add: example_defs trace_def result_def)

text \<open>
  In this example the store and the credentials are configured, so that the persistence
  path passes its two configuration tests and reaches both requests.
\<close>

theorem C3_location_order_witness:
  "is_set (CMS_EMAIL cfg0) \<and> is_set (CMS_PASSWORD cfg0)
   \<and> cmsCollectionUrl cfg0 \<noteq> None \<and> cmsLoginUrl cfg0 \<noteq> None
   \<and> map (\<lambda>(rq, a). (http_method rq, get (json_body rq) ''location''))
        (calls (trace (run (persistPositionReport cfg0 rt0 report (authed 122400000))
           (script [quiet, responded 200, quiet,
              parsed (history (get (json_body (postAisLog cfg0 rt0 report (authed 122400000))) ''location'')),
              quiet, responded 201]) 0)))
     = [(''GET'', JUndefined), (''POST'', JArr [JNum (Finite 20), JNum (Finite 10)])]"
proof -
  have "is_set (CMS_EMAIL cfg0) \<and> is_set (CMS_PASSWORD cfg0)
    \<and> cmsCollectionUrl cfg0 \<noteq> None \<and> cmsLoginUrl cfg0 \<noteq> None"
    by (simp add: cfg0_def is_set_def cmsCollectionUrl_def cmsLoginUrl_def)
  with C3_location_order show ?thesis
    by blast
qed

section \<open>Failing open\<close>

text \<open>
  C5 does not hold of the code. When the query is answered with status 500 and the body
  of that response cannot be read, the \<^verbatim>\<open>await response.text()\<close> that feeds the log line
  throws out of \<^verbatim>\<open>shouldPersistPositionReport\<close>: the check does not return \<^verbatim>\<open>true\<close>, and
  \<^verbatim>\<open>persistPositionReport\<close> catches the exception and drops the report after the query.
\<close>

theorem C5_unread_error_body:
  "result (run (shouldPersistPositionReport cfg0 rt0 report (authed 0))
             (script [responded 500, quiet]) 0) = Rejected TypeError
   \<and> map (\<lambda>(rq, a). http_method rq)
        (calls (trace (run (persistPositionReport cfg0 rt0 report (authed 0))
                         (script [quiet, responded 500]) 0))) = [''GET'']
   \<and> last (console (final (run (persistPositionReport cfg0 rt0 report (authed 0))
                         (script [quiet, responded 500]) 0)))
       = ''Failed to evaluate AIS log duplication rules''"
  by (simp add: example_defs trace_def result_def final_def)

text \<open>
  Here too the store and the credentials are configured: the persistence path passes its
  configuration tests and issues the query.
\<close>

theorem C5_unread_error_body_witness:
  "is_set (CMS_EMAIL cfg0) \<and> is_set (CMS_PASSWORD cfg0)
   \<and> cmsCollectionUrl cfg0 \<noteq> None \<and> cmsLoginUrl cfg0 \<noteq> None
   \<and> map (\<lambda>(rq, a). http_method rq)
        (calls (trace (run (persistPositionReport cfg0 rt0 report (authed 0))
                         (script [quiet, responded 500]) 0))) = [''GET'']"
proof -
  have "is_set (CMS_EMAIL cfg0) \<and> is_set (CMS_PASSWORD cfg0)
    \<and> cmsCollectionUrl cfg0 \<noteq> None \<and> cmsLoginUrl cfg0 \<noteq> None"
    by (simp add: cfg0_def is_set_def cmsCollectionUrl_def cmsLoginUrl_def)
  with C5_unread_error_body show ?thesis
    by blast
qed

text \<open>
  What does hold: with the store configured, the check returns \<^verbatim>\<open>true\<close>, or it has read
  the body of the query and returns what the two rules decide, or the body of a response
  that is not ok could not be read and the check throws.
\<close>

lemma shouldPersist_outcomes:
  assumes "cmsCollectionUrl cfg \<noteq> None"
    and R: "R = run (shouldPersistPositionReport cfg rt pr st) env n"
  shows "result R = Fulfilled True
    \<or> (\<exists>response payload s. ReadJson response (Fulfilled payload) s \<in> set (trace R)
          \<and> result R = Fulfilled (decision rt pr (clock st) payload))
    \<or> (\<exists>response e s. ReadText response (Rejected e) s \<in> set (trace R) \<and> \<not> ok response
          \<and> result R = Rejected e)"
proof (cases "truthy (cmsAuthToken st)")
  case False
  then show ?thesis
    using assms by (simp add: shouldPersistPositionReport_def)
next
  case True
  show ?thesis
    unfolding R run_shouldPersist [OF assms(1) True] Let_def
    by (auto split: settled.splits)
qed

text \<open>
  And the rule as the code has it: an entry whose location is the pair of the report's
  latitude and longitude, in this order, makes the check return \<^verbatim>\<open>false\<close>.
\<close>

lemma same_location_rule:
  assumes R: "R = run (shouldPersistPositionReport cfg rt pr st) env n"
    and j: "ReadJson response (Fulfilled payload) s \<in> set (trace R)"
    and d: "doc \<in> set (docs_of payload)" "get doc ''location'' = JArr location"
      "2 \<le> length location"
      "strict_eq (Number rt (location ! 0)) (Number rt (get pr ''Latitude''))"
      "strict_eq (Number rt (location ! 1)) (Number rt (get pr ''Longitude''))"
  shows "result R = Fulfilled False"
proof -
  have c: "cmsCollectionUrl cfg \<noteq> None" "truthy (cmsAuthToken st)"
    using j unfolding R by (auto simp add: shouldPersistPositionReport_def split: if_splits)
  have "hasSameLocation rt pr (docs_of payload)"
    unfolding hasSameLocation_def list_ex_iff
    by (rule bexI [OF _ d(1)]) (use d in simp)
  moreover have "ReadJson response (Fulfilled payload) s \<notin> set (trace (query_run cfg rt st env n))"
    using query_reads_no_body [of "ReadJson response (Fulfilled payload) s" cfg rt st env n] by auto
  ultimately show ?thesis
    using j unfolding R run_shouldPersist [OF c] Let_def
    by (auto simp add: decision_def split: settled.splits if_splits)
qed

end
